theory Spec2Isabelle
  imports Main
begin

section \<open>JavaScript strings\<close>

text \<open>
  A JavaScript string is a sequence of UTF-16 code units; \<open>length\<close>, \<open>substring\<close> and
  regular expressions without the \<open>u\<close> flag work on code units, regular expressions with the
  \<open>u\<close> flag read a high surrogate followed by a low surrogate as one code point.
  Code units are modelled as natural numbers.
\<close>

type_synonym jsstring = "nat list"

definition js :: "string \<Rightarrow> jsstring" where
  "js s = map of_char s"

definition is_high :: "nat \<Rightarrow> bool" where
  "is_high u \<longleftrightarrow> 0xD800 \<le> u \<and> u \<le> 0xDBFF"

definition is_low :: "nat \<Rightarrow> bool" where
  "is_low u \<longleftrightarrow> 0xDC00 \<le> u \<and> u \<le> 0xDFFF"

definition code_point :: "nat \<Rightarrow> nat \<Rightarrow> nat" where
  "code_point h l = (h - 0xD800) * 0x400 + (l - 0xDC00) + 0x10000"

text \<open>The class \<open>\s\<close> of ECMAScript (WhiteSpace and LineTerminator); \<open>trim\<close> strips the same set.\<close>

definition is_space :: "nat \<Rightarrow> bool" where
  "is_space u \<longleftrightarrow>
     u = 0x09 \<or> u = 0x0A \<or> u = 0x0B \<or> u = 0x0C \<or> u = 0x0D \<or> u = 0x20 \<or> u = 0xA0 \<or>
     u = 0x1680 \<or> (0x2000 \<le> u \<and> u \<le> 0x200A) \<or> u = 0x2028 \<or> u = 0x2029 \<or>
     u = 0x202F \<or> u = 0x205F \<or> u = 0x3000 \<or> u = 0xFEFF"

text \<open>The dot of a regular expression without the \<open>s\<close> flag matches all but these.\<close>

definition is_line_terminator :: "nat \<Rightarrow> bool" where
  "is_line_terminator u \<longleftrightarrow> u = 0x0A \<or> u = 0x0D \<or> u = 0x2028 \<or> u = 0x2029"

abbreviation LF :: nat where "LF \<equiv> 0x0A"
abbreviation SPACE :: nat where "SPACE \<equiv> 0x20"
abbreviation HASH :: nat where "HASH \<equiv> 0x23"
abbreviation STAR :: nat where "STAR \<equiv> 0x2A"
abbreviation DOT :: nat where "DOT \<equiv> 0x2E"
abbreviation BACKTICK :: nat where "BACKTICK \<equiv> 0x60"

section \<open>sanitizeText\<close>

text \<open>
  \<open>.replace(/[\u{lo}-\u{hi}]/gu, '')\<close>: the global scan advances by code points, so a
  surrogate pair is tested as one code point and never entered in the middle.
\<close>

fun remove_range :: "nat \<Rightarrow> nat \<Rightarrow> jsstring \<Rightarrow> jsstring" where
  "remove_range lo hi [] = []"
| "remove_range lo hi [u] = (if lo \<le> u \<and> u \<le> hi then [] else [u])"
| "remove_range lo hi (u # v # rest) =
     (if is_high u \<and> is_low v then
        (if lo \<le> code_point u v \<and> code_point u v \<le> hi then remove_range lo hi rest
         else u # v # remove_range lo hi rest)
      else if lo \<le> u \<and> u \<le> hi then remove_range lo hi (v # rest)
      else u # remove_range lo hi (v # rest))"

text \<open>
  The lazy group of \<open>/D(.*?)D/\<close> after an opening delimiter \<open>d\<close>: the shortest run of
  non-terminators that is followed by \<open>d\<close>. The result is the group and the text after the
  closing delimiter.
\<close>

fun find_close :: "jsstring \<Rightarrow> jsstring \<Rightarrow> (jsstring \<times> jsstring) option" where
  "find_close d [] = (if d = [] then Some ([], []) else None)"
| "find_close d (c # cs) =
     (if take (length d) (c # cs) = d then Some ([], drop (length d) (c # cs))
      else if is_line_terminator c then None
      else (case find_close d cs of
              None \<Rightarrow> None
            | Some (g, r) \<Rightarrow> Some (c # g, r)))"

lemma find_close_length: "find_close d s = Some (g, r) \<Longrightarrow> length r \<le> length s"
  by (induction s arbitrary: g) (auto split: if_splits option.splits)

text \<open>\<open>.replace(/D(.*?)D/g, '$1')\<close> for a delimiter \<open>d\<close> (\<open>**\<close>, \<open>*\<close> or a backtick).\<close>

function strip_delim :: "jsstring \<Rightarrow> jsstring \<Rightarrow> jsstring" where
  "strip_delim d [] = []"
| "strip_delim d (c # cs) =
     (if d \<noteq> [] \<and> take (length d) (c # cs) = d then
        (case find_close d (drop (length d) (c # cs)) of
           Some (g, r) \<Rightarrow> g @ strip_delim d r
         | None \<Rightarrow> c # strip_delim d cs)
      else c # strip_delim d cs)"
  by pat_completeness auto
termination
proof (relation "measure (\<lambda>(d, s). length s)")
  show "wf (measure (\<lambda>(d, s). length s))" by simp
next
  fix d :: jsstring and c cs x g r
  assume d: "d \<noteq> [] \<and> take (length d) (c # cs) = d"
    and f: "find_close d (drop (length d) (c # cs)) = Some x" and x: "(g, r) = x"
  from f x have "length r \<le> length (drop (length d) (c # cs))"
    using find_close_length [of d "drop (length d) (c # cs)" g r] by simp
  moreover from d have "0 < length d" by simp
  ultimately show "((d, r), (d, c # cs)) \<in> measure (\<lambda>(d, s). length s)"
    by (cases d) auto
qed simp_all

text \<open>
  \<open>.replace(/#{1,6}\s/g, '')\<close>: at a \<open>#\<close> the greedy count can only end where the run of
  \<open>#\<close> ends, so the match exists iff the run from here has at most six \<open>#\<close> and a
  white-space character follows it.
\<close>

function strip_heading :: "jsstring \<Rightarrow> jsstring" where
  "strip_heading [] = []"
| "strip_heading (c # cs) =
     (if c = HASH \<and> length (takeWhile (\<lambda>x. x = HASH) cs) < 6 \<and>
         (case dropWhile (\<lambda>x. x = HASH) cs of [] \<Rightarrow> False | w # _ \<Rightarrow> is_space w)
      then strip_heading (tl (dropWhile (\<lambda>x. x = HASH) cs))
      else c # strip_heading cs)"
  by pat_completeness auto
termination
proof (relation "measure length")
  show "wf (measure length)" by simp
next
  fix c :: nat and cs :: jsstring
  have "length (dropWhile (\<lambda>x. x = HASH) cs) \<le> length cs"
    by (rule length_dropWhile_le)
  then show "(tl (dropWhile (\<lambda>x. x = HASH) cs), c # cs) \<in> measure length" by simp
qed simp_all

text \<open>\<open>.replace(/\n+/g, '. ')\<close>\<close>

function replace_newlines :: "jsstring \<Rightarrow> jsstring" where
  "replace_newlines [] = []"
| "replace_newlines (c # cs) =
     (if c = LF then DOT # SPACE # replace_newlines (dropWhile (\<lambda>x. x = LF) cs)
      else c # replace_newlines cs)"
  by pat_completeness auto
termination
  by (relation "measure length") (auto simp: length_dropWhile_le less_Suc_eq_le)

text \<open>\<open>.replace(/\s+/g, ' ')\<close>\<close>

function collapse_spaces :: "jsstring \<Rightarrow> jsstring" where
  "collapse_spaces [] = []"
| "collapse_spaces (c # cs) =
     (if is_space c then SPACE # collapse_spaces (dropWhile is_space cs)
      else c # collapse_spaces cs)"
  by pat_completeness auto
termination
  by (relation "measure length") (auto simp: length_dropWhile_le less_Suc_eq_le)

text \<open>\<open>.trim()\<close>\<close>

definition trim :: "jsstring \<Rightarrow> jsstring" where
  "trim s = rev (dropWhile is_space (rev (dropWhile is_space s)))"

text \<open>The markdown and white-space steps shared by every copy of \<open>sanitizeText\<close>.\<close>

definition strip_markdown :: "jsstring \<Rightarrow> jsstring" where
  "strip_markdown s =
     trim (collapse_spaces (replace_newlines (strip_heading
       (strip_delim [BACKTICK] (strip_delim [STAR] (strip_delim [STAR, STAR] s))))))"

text \<open>\<open>sanitizeText\<close> of the text-to-speech edge functions (seven emoji ranges).\<close>

definition sanitizeText :: "jsstring \<Rightarrow> jsstring" where
  "sanitizeText text =
     strip_markdown
       (remove_range 0x1FA00 0x1FA6F
       (remove_range 0x1F900 0x1F9FF
       (remove_range 0x2700 0x27BF
       (remove_range 0x2600 0x26FF
       (remove_range 0x1F680 0x1F6FF
       (remove_range 0x1F300 0x1F5FF
       (remove_range 0x1F600 0x1F64F text)))))))"

text \<open>\<open>sanitizeText\<close> of the browser hook \<open>useNativeTTS\<close> (four emoji ranges).\<close>

definition sanitizeText_client :: "jsstring \<Rightarrow> jsstring" where
  "sanitizeText_client text =
     strip_markdown
       (remove_range 0x2600 0x26FF
       (remove_range 0x1F680 0x1F6FF
       (remove_range 0x1F300 0x1F5FF
       (remove_range 0x1F600 0x1F64F text))))"

text \<open>
  The emoji steps of both copies as lists of ranges, removed in order.
\<close>

definition remove_all :: "(nat \<times> nat) list \<Rightarrow> jsstring \<Rightarrow> jsstring" where
  "remove_all ranges s = fold (\<lambda>(lo, hi). remove_range lo hi) ranges s"

definition server_ranges :: "(nat \<times> nat) list" where
  "server_ranges =
     [(0x1F600, 0x1F64F), (0x1F300, 0x1F5FF), (0x1F680, 0x1F6FF), (0x2600, 0x26FF),
      (0x2700, 0x27BF), (0x1F900, 0x1F9FF), (0x1FA00, 0x1FA6F)]"

definition client_ranges :: "(nat \<times> nat) list" where
  "client_ranges =
     [(0x1F600, 0x1F64F), (0x1F300, 0x1F5FF), (0x1F680, 0x1F6FF), (0x2600, 0x26FF)]"

text \<open>
  Well-formed UTF-16: every surrogate code unit is half of a pair. \<open>free_of lo hi s\<close> says
  in addition that no code point of \<open>s\<close> lies in the range.
\<close>

fun well_formed :: "jsstring \<Rightarrow> bool" where
  "well_formed [] = True"
| "well_formed [u] = (\<not> is_high u \<and> \<not> is_low u)"
| "well_formed (u # v # rest) =
     (if is_high u \<and> is_low v then well_formed rest
      else \<not> is_high u \<and> \<not> is_low u \<and> well_formed (v # rest))"

fun free_of :: "nat \<Rightarrow> nat \<Rightarrow> jsstring \<Rightarrow> bool" where
  "free_of lo hi [] = True"
| "free_of lo hi [u] = (\<not> is_high u \<and> \<not> is_low u \<and> \<not> (lo \<le> u \<and> u \<le> hi))"
| "free_of lo hi (u # v # rest) =
     (if is_high u \<and> is_low v
      then \<not> (lo \<le> code_point u v \<and> code_point u v \<le> hi) \<and> free_of lo hi rest
      else \<not> is_high u \<and> \<not> is_low u \<and> \<not> (lo \<le> u \<and> u \<le> hi) \<and> free_of lo hi (v # rest))"

text \<open>
  \<open>thin s t\<close>: \<open>t\<close> is \<open>s\<close> with some code units that are not surrogates left out. The
  markdown steps only leave out markers and white space.
\<close>

inductive thin :: "jsstring \<Rightarrow> jsstring \<Rightarrow> bool" where
  thin_Nil: "thin [] []"
| thin_keep: "thin s t \<Longrightarrow> thin (c # s) (c # t)"
| thin_drop: "\<not> is_high c \<Longrightarrow> \<not> is_low c \<Longrightarrow> thin s t \<Longrightarrow> thin (c # s) t"

text \<open>No \<open>#\<close> stands directly before a white-space character: \<open>/#{1,6}\s/\<close> has no match.\<close>

fun no_heading :: "jsstring \<Rightarrow> bool" where
  "no_heading [] = True"
| "no_heading [c] = True"
| "no_heading (c # d # rest) = (\<not> (c = HASH \<and> is_space d) \<and> no_heading (d # rest))"

text \<open>
  A text in which the markdown steps find nothing: fewer than two \<open>*\<close>, fewer than two
  backticks and no \<open>#\<close> directly before white space.
\<close>

definition settled :: "jsstring \<Rightarrow> bool" where
  "settled s \<longleftrightarrow> count_list s STAR < 2 \<and> count_list s BACKTICK < 2 \<and> no_heading s"

text \<open>
  What \<open>.replace(/\s+/g, ' ')\<close> leaves: every white-space character is a single space
  between other characters or at an end.
\<close>

fun spaced :: "jsstring \<Rightarrow> bool" where
  "spaced [] = True"
| "spaced [c] = (is_space c \<longrightarrow> c = SPACE)"
| "spaced (c # d # rest) = ((is_space c \<longrightarrow> c = SPACE \<and> \<not> is_space d) \<and> spaced (d # rest))"

section \<open>The backing store\<close>

text \<open>
  Tables \<open>subscriptions\<close>, \<open>upgrade_requests\<close>, \<open>students\<close> and \<open>session_tokens\<close> as lists of
  rows. Timestamps are milliseconds since the epoch; identifiers are strings.
\<close>

datatype plan = Basic | Pro

record subscription =
  sub_id :: string
  student_id :: string
  plan :: plan
  start_date :: int
  end_date :: "int option"
  tts_used :: int
  tts_limit :: int
  is_active :: bool

datatype request_status = Pending | Approved | Rejected | Blocked

record upgrade_request =
  req_id :: string
  req_student_id :: string
  status :: request_status
  processed_at :: "int option"
  processed_by :: "string option"
  rejection_reason :: "string option"

record student =
  stu_id :: string
  school_id :: string

datatype user_type = School | Admin | Student

record session_token =
  token :: string
  user_id :: string
  user_type :: user_type
  expires_at :: int
  is_revoked :: bool

text \<open>
  A call of the store client resolves with data, resolves with an \<open>error\<close> value, or
  rejects (the awaiting code then throws). \<open>condition\<close> is the state of the store when
  a request reads it, \<open>write_condition\<close> its state when the request then writes: a
  write can fail although the read before it has succeeded. All writes of one request
  meet the same state.
\<close>

datatype condition = Up | Failing | Unreachable

datatype 'a reply = Data 'a | Error | Throws

record db =
  subscriptions :: "subscription list"
  upgrade_requests :: "upgrade_request list"
  students :: "student list"
  session_tokens :: "session_token list"
  condition :: condition
  write_condition :: condition

text \<open>\<open>.maybeSingle()\<close>: no row is \<open>null\<close>, one row is the row, several rows are an error.\<close>

definition maybeSingle :: "condition \<Rightarrow> 'a list \<Rightarrow> 'a option reply" where
  "maybeSingle c rows =
     (case c of
        Unreachable \<Rightarrow> Throws
      | Failing \<Rightarrow> Error
      | Up \<Rightarrow> (case rows of [] \<Rightarrow> Data None | [r] \<Rightarrow> Data (Some r) | _ \<Rightarrow> Error))"

text \<open>\<open>from('subscriptions').select('*').eq('student_id', studentId).maybeSingle()\<close>\<close>

definition select_subscription :: "db \<Rightarrow> string \<Rightarrow> subscription option reply" where
  "select_subscription d studentId =
     maybeSingle (condition d) (filter (\<lambda>r. student_id r = studentId) (subscriptions d))"

text \<open>
  An awaited write: the store applies the change and the call resolves, or the store
  leaves the rows as they are and the call resolves with an \<open>error\<close> value or rejects.
\<close>

definition store_write :: "db \<Rightarrow> (db \<Rightarrow> db) \<Rightarrow> unit reply \<times> db" where
  "store_write d change =
     (case write_condition d of
        Up \<Rightarrow> (Data (), change d)
      | Failing \<Rightarrow> (Error, d)
      | Unreachable \<Rightarrow> (Throws, d))"

text \<open>\<open>from('subscriptions').update({ tts_used: newTtsUsed }).eq('id', id)\<close>\<close>

definition set_tts_used :: "db \<Rightarrow> string \<Rightarrow> int \<Rightarrow> db" where
  "set_tts_used d i newTtsUsed =
     d\<lparr>subscriptions :=
         map (\<lambda>r. if sub_id r = i then r\<lparr>tts_used := newTtsUsed\<rparr> else r) (subscriptions d)\<rparr>"

definition update_tts_used :: "db \<Rightarrow> string \<Rightarrow> int \<Rightarrow> unit reply \<times> db" where
  "update_tts_used d i newTtsUsed = store_write d (\<lambda>d. set_tts_used d i newTtsUsed)"

section \<open>checkAndTrackUsage\<close>

record usage_info =
  info_plan :: plan
  ttsUsed :: int
  ttsLimit :: int
  ttsRemaining :: int
  canUsePremium :: bool

record usage_result =
  canUse :: bool
  usageInfo :: "usage_info option"
  reason :: "string option"

text \<open>
  The part of \<open>checkAndTrackUsage\<close> between its two store calls: from the reply of the
  select, either the result of a denial or the row and counter to write with the result
  of a grant.
\<close>

datatype decision = Deny usage_result | Grant string int usage_result

definition isExpired :: "subscription \<Rightarrow> int \<Rightarrow> bool" where
  "isExpired sub now = (case end_date sub of None \<Rightarrow> False | Some e \<Rightarrow> e < now)"

definition usage_decide :: "subscription option reply \<Rightarrow> int \<Rightarrow> int \<Rightarrow> decision" where
  "usage_decide sel now textLength =
     (case sel of
        Throws \<Rightarrow> Deny \<lparr>canUse = False, usageInfo = None, reason = Some ''Usage check failed''\<rparr>
      | Error \<Rightarrow> Deny \<lparr>canUse = False, usageInfo = None, reason = Some ''No subscription found''\<rparr>
      | Data None \<Rightarrow>
          Deny \<lparr>canUse = False, usageInfo = None, reason = Some ''No subscription found''\<rparr>
      | Data (Some sub) \<Rightarrow>
          (let isPro = (plan sub = Pro \<and> is_active sub);
               hasQuota = (tts_used sub + textLength \<le> tts_limit sub)
           in if \<not> isPro then
                Deny \<lparr>canUse = False,
                      usageInfo = Some \<lparr>info_plan = Basic, ttsUsed = tts_used sub,
                        ttsLimit = tts_limit sub, ttsRemaining = tts_limit sub - tts_used sub,
                        canUsePremium = False\<rparr>,
                      reason = Some ''Basic plan - use Web TTS''\<rparr>
              else if isExpired sub now then
                Deny \<lparr>canUse = False, usageInfo = None,
                      reason = Some ''Pro subscription expired''\<rparr>
              else if \<not> hasQuota then
                Deny \<lparr>canUse = False,
                      usageInfo = Some \<lparr>info_plan = Pro, ttsUsed = tts_used sub,
                        ttsLimit = tts_limit sub, ttsRemaining = 0, canUsePremium = False\<rparr>,
                      reason = Some ''TTS limit reached''\<rparr>
              else
                (let newTtsUsed = tts_used sub + textLength
                 in Grant (sub_id sub) newTtsUsed
                      \<lparr>canUse = True,
                       usageInfo = Some \<lparr>info_plan = Pro, ttsUsed = newTtsUsed,
                         ttsLimit = tts_limit sub, ttsRemaining = tts_limit sub - newTtsUsed,
                         canUsePremium = (newTtsUsed < tts_limit sub)\<rparr>,
                       reason = None\<rparr>)))"

text \<open>
  The result of the update is not read: the grant is returned whether the store wrote
  or answered with an error value. A rejected call is caught like any other exception.
\<close>

definition usage_check_failed :: usage_result where
  "usage_check_failed = \<lparr>canUse = False, usageInfo = None, reason = Some ''Usage check failed''\<rparr>"

definition checkAndTrackUsage :: "db \<Rightarrow> int \<Rightarrow> string \<Rightarrow> int \<Rightarrow> usage_result \<times> db" where
  "checkAndTrackUsage d now studentId textLength =
     (case usage_decide (select_subscription d studentId) now textLength of
        Deny r \<Rightarrow> (r, d)
      | Grant i newTtsUsed r \<Rightarrow>
          (case update_tts_used d i newTtsUsed of
             (written, d') \<Rightarrow> if written = Throws then (usage_check_failed, d') else (r, d')))"

text \<open>The stored counter of a student (\<open>None\<close> when the student has no subscription row).\<close>

definition stored_usage :: "db \<Rightarrow> string \<Rightarrow> int option" where
  "stored_usage d studentId =
     (case filter (\<lambda>r. student_id r = studentId) (subscriptions d) of
        [] \<Rightarrow> None
      | r # _ \<Rightarrow> Some (tts_used r))"

text \<open>The condition under which a subscription row is granted \<open>n\<close> more characters.\<close>

definition qualifies :: "subscription \<Rightarrow> int \<Rightarrow> int \<Rightarrow> bool" where
  "qualifies sub now n \<longleftrightarrow>
     plan sub = Pro \<and> is_active sub \<and> \<not> isExpired sub now \<and> tts_used sub + n \<le> tts_limit sub"

section \<open>Two calls of checkAndTrackUsage in flight\<close>

text \<open>
  \<open>checkAndTrackUsage\<close> awaits the store twice, for the select and, once a grant is
  decided, for the update; requests of other clients run between the two. A call is
  waiting to start, has decided a grant and still has to write, or is finished.
\<close>

datatype call = Waiting int int | Writing string int usage_result | Finished usage_result

definition call_step :: "string \<Rightarrow> call \<Rightarrow> db \<Rightarrow> call \<times> db" where
  "call_step studentId c d =
     (case c of
        Waiting now textLength \<Rightarrow>
          (case usage_decide (select_subscription d studentId) now textLength of
             Deny r \<Rightarrow> (Finished r, d)
           | Grant i newTtsUsed r \<Rightarrow> (Writing i newTtsUsed r, d))
      | Writing i newTtsUsed r \<Rightarrow>
          (case update_tts_used d i newTtsUsed of
             (written, d') \<Rightarrow>
               if written = Throws then (Finished usage_check_failed, d') else (Finished r, d'))
      | Finished r \<Rightarrow> (Finished r, d))"

text \<open>A schedule says which of two calls for the same student takes the next step.\<close>

datatype who = First | Second

fun run :: "who list \<Rightarrow> string \<Rightarrow> call \<times> call \<times> db \<Rightarrow> call \<times> call \<times> db" where
  "run [] studentId s = s"
| "run (First # sched) studentId (a, b, d) =
     (case call_step studentId a d of (a', d') \<Rightarrow> run sched studentId (a', b, d'))"
| "run (Second # sched) studentId (a, b, d) =
     (case call_step studentId b d of (b', d') \<Rightarrow> run sched studentId (a, b', d'))"

definition granted :: "call \<Rightarrow> bool" where
  "granted c = (case c of Finished r \<Rightarrow> canUse r | _ \<Rightarrow> False)"

section \<open>The server-side audio cache\<close>

text \<open>
  \<open>audioCache\<close> is a \<open>Map\<close> from key to \<open>{ audio, timestamp }\<close>: an association list in
  insertion order with distinct keys.
\<close>

record cache_entry =
  audio :: jsstring
  timestamp :: int

type_synonym audio_cache = "(jsstring \<times> cache_entry) list"

definition CACHE_TTL_MS :: int where
  "CACHE_TTL_MS = 30 * 60 * 1000"

text \<open>\<open>Map.prototype.set\<close>: an existing key keeps its position, a new key goes last.\<close>

fun map_set :: "('k \<times> 'v) list \<Rightarrow> 'k \<Rightarrow> 'v \<Rightarrow> ('k \<times> 'v) list" where
  "map_set [] k v = [(k, v)]"
| "map_set ((k', v') # rest) k v =
     (if k' = k then (k, v) # rest else (k', v') # map_set rest k v)"

definition map_delete :: "('k \<times> 'v) list \<Rightarrow> 'k \<Rightarrow> ('k \<times> 'v) list" where
  "map_delete m k = filter (\<lambda>(k', v). k' \<noteq> k) m"

text \<open>
  \<open>toLowerCase\<close> depends on the Unicode case tables, which are not part of the program: it
  is a parameter.
\<close>

definition getCacheKey ::
  "(jsstring \<Rightarrow> jsstring) \<Rightarrow> jsstring \<Rightarrow> jsstring \<Rightarrow> jsstring \<Rightarrow> jsstring" where
  "getCacheKey toLowerCase txt voiceId model =
     (let normalizedText = take 500 (toLowerCase (sanitizeText txt))
      in model @ js '':'' @ voiceId @ js '':'' @ normalizedText)"

definition cleanCache :: "int \<Rightarrow> audio_cache \<Rightarrow> audio_cache" where
  "cleanCache now cache = filter (\<lambda>(key, v). \<not> (now - timestamp v > CACHE_TTL_MS)) cache"

text \<open>\<open>cleanCache(); ... audioCache.get(cacheKey)\<close> as the handler runs them.\<close>

definition cache_lookup :: "int \<Rightarrow> audio_cache \<Rightarrow> jsstring \<Rightarrow> cache_entry option" where
  "cache_lookup now cache key = map_of (cleanCache now cache) key"

text \<open>\<open>audioCache.set(...)\<close> followed by the size limit of 100 entries.\<close>

definition cache_store :: "int \<Rightarrow> audio_cache \<Rightarrow> jsstring \<Rightarrow> jsstring \<Rightarrow> audio_cache" where
  "cache_store now cache key audioBase64 =
     (let c = map_set cache key \<lparr>audio = audioBase64, timestamp = now\<rparr>
      in if length c > 100 then
           (case c of
              [] \<Rightarrow> c
            | (oldestKey, v) # rest \<Rightarrow> if oldestKey \<noteq> [] then map_delete c oldestKey else c)
         else c)"

definition containsHindi :: "jsstring \<Rightarrow> bool" where
  "containsHindi txt = list_ex (\<lambda>u. 0x0900 \<le> u \<and> u \<le> 0x097F) txt"

section \<open>The text-to-speech edge function\<close>

datatype http_method = OPTIONS | POST

record env =
  SPEECHIFY_API_KEY :: bool
  SUPABASE_URL :: bool
  SUPABASE_SERVICE_ROLE_KEY :: bool

text \<open>
  The JSON body; \<open>None\<close> for \<open>body_text\<close> is a missing or non-string \<open>text\<close>, \<open>None\<close> for the
  others is an absent field.
\<close>

record tts_body =
  body_text :: "jsstring option"
  voiceId :: "jsstring option"
  language :: "jsstring option"
  studentId :: "string option"

record vendor_request =
  input :: jsstring
  voice_id :: jsstring
  model :: jsstring
  req_language :: jsstring

text \<open>
  What the Speechify call does: the fetch (or reading its JSON) rejects, the status is
  not ok (\<open>NotOk\<close> carries the status, outside 200 to 299), or the status is ok with a
  JSON body that may hold \<open>audio_data\<close>.
\<close>

datatype vendor_reply = VendorRejected | NotOk nat | Ok200 "jsstring option"

datatype response =
    CorsOk
  | Failure nat string
  | FallbackToWebTTS "string option" "usage_info option"
  | Audio jsstring bool nat "usage_info option"

text \<open>The readings of the clock during one request.\<close>

record times =
  t_usage :: int
  t_clean :: int
  t_store :: int

record tts_result =
  response :: response
  db_after :: db
  cache_after :: audio_cache
  vendor_requests :: "vendor_request list"

text \<open>The handler from the cache lookup on (the text is sanitized and truncated).\<close>

definition synthesize ::
  "(jsstring \<Rightarrow> jsstring) \<Rightarrow> times \<Rightarrow> vendor_reply \<Rightarrow> jsstring \<Rightarrow> jsstring \<Rightarrow> jsstring \<Rightarrow>
   usage_info option \<Rightarrow> db \<Rightarrow> audio_cache \<Rightarrow> tts_result" where
  "synthesize toLowerCase t vendor truncatedText voice lang info d cache =
     (let hasHindi = containsHindi truncatedText;
          mdl = js ''simba-multilingual'';
          detectedLanguage =
            (if hasHindi then js ''hi-IN''
             else if lang = js ''hi-IN'' then js ''hi-IN'' else js ''en-IN'');
          cleaned = cleanCache (t_clean t) cache;
          cacheKey = getCacheKey toLowerCase truncatedText voice mdl
      in case cache_lookup (t_clean t) cache cacheKey of
           Some cached \<Rightarrow>
             \<lparr>response = Audio (audio cached) True (length truncatedText) info,
              db_after = d, cache_after = cleaned, vendor_requests = []\<rparr>
         | None \<Rightarrow>
             (let requestBody = \<lparr>input = truncatedText, voice_id = voice, model = mdl,
                                 req_language = detectedLanguage\<rparr>;
                  failed = (\<lambda>st msg. \<lparr>response = Failure st msg, db_after = d,
                                        cache_after = cleaned, vendor_requests = [requestBody]\<rparr>)
              in case vendor of
                   VendorRejected \<Rightarrow> failed 500 ''Internal server error''
                 | NotOk st \<Rightarrow>
                     (if st = 401 then failed 401 ''TTS authentication failed. Please check API key.''
                      else if st = 429 then failed 429 ''TTS rate limit reached. Please try again later.''
                      else failed st ''TTS generation failed'')
                 | Ok200 None \<Rightarrow> failed 500 ''Invalid response from TTS service''
                 | Ok200 (Some audioBase64) \<Rightarrow>
                     (if audioBase64 = [] then failed 500 ''Invalid response from TTS service''
                      else
                        \<lparr>response = Audio audioBase64 False (length truncatedText) info,
                         db_after = d,
                         cache_after = cache_store (t_store t) cleaned cacheKey audioBase64,
                         vendor_requests = [requestBody]\<rparr>)))"

text \<open>The defaults of the destructured request body.\<close>

definition voice_of :: "tts_body \<Rightarrow> jsstring" where
  "voice_of b = (case voiceId b of None \<Rightarrow> js ''henry'' | Some v \<Rightarrow> v)"

definition language_of :: "tts_body \<Rightarrow> jsstring" where
  "language_of b = (case language b of None \<Rightarrow> js ''en-IN'' | Some l \<Rightarrow> l)"

definition truncate_text :: "jsstring \<Rightarrow> jsstring" where
  "truncate_text cleanText =
     (if length cleanText > 2000 then take 2000 cleanText @ js ''...'' else cleanText)"

definition serve ::
  "(jsstring \<Rightarrow> jsstring) \<Rightarrow> env \<Rightarrow> times \<Rightarrow> vendor_reply \<Rightarrow> http_method \<Rightarrow> tts_body option \<Rightarrow>
   db \<Rightarrow> audio_cache \<Rightarrow> tts_result" where
  "serve toLowerCase e t vendor method body d cache =
     (let done = (\<lambda>r. \<lparr>response = r, db_after = d, cache_after = cache, vendor_requests = []\<rparr>)
      in if method = OPTIONS then done CorsOk
         else if \<not> SPEECHIFY_API_KEY e then done (Failure 500 ''TTS service not configured'')
         else case body of
           None \<Rightarrow> done (Failure 500 ''Internal server error'')
         | Some b \<Rightarrow>
             (case body_text b of
                None \<Rightarrow> done (Failure 400 ''Text is required'')
              | Some txt \<Rightarrow>
                  if txt = [] then done (Failure 400 ''Text is required'')
                  else
                    (let cleanText = sanitizeText txt
                     in if cleanText = [] then done (Failure 400 ''No speakable text provided'')
                        else
                          (let truncatedText = truncate_text cleanText;
                               voice = voice_of b;
                               lang = language_of b
                           in case studentId b of
                                Some sid \<Rightarrow>
                                  if sid \<noteq> [] \<and> SUPABASE_URL e \<and> SUPABASE_SERVICE_ROLE_KEY e then
                                    (case checkAndTrackUsage d (t_usage t) sid
                                            (int (length truncatedText)) of
                                       (usageResult, d') \<Rightarrow>
                                         if \<not> canUse usageResult then
                                           \<lparr>response = FallbackToWebTTS (reason usageResult)
                                                          (usageInfo usageResult),
                                            db_after = d', cache_after = cache,
                                            vendor_requests = []\<rparr>
                                         else synthesize toLowerCase t vendor truncatedText voice
                                                lang (usageInfo usageResult) d' cache)
                                  else synthesize toLowerCase t vendor truncatedText voice lang
                                         None d cache
                              | None \<Rightarrow>
                                  synthesize toLowerCase t vendor truncatedText voice lang
                                    None d cache))))"

section \<open>The manage-subscription edge function: approve_request\<close>

text \<open>
  \<open>Date.prototype.setDate(getDate() + n)\<close> in the time zone of the edge runtime, UTC.
  ECMAScript computes \<open>MakeDate(MakeDay(year, month, date + n), TimeWithinDay(t))\<close>; a day
  of the month beyond the month's end counts on from the first of the month, so the day
  number is \<open>Day(t) + n\<close>.
\<close>

definition msPerDay :: int where
  "msPerDay = 86400000"

definition setDate_plus :: "int \<Rightarrow> int \<Rightarrow> int" where
  "setDate_plus n t = (t div msPerDay + n) * msPerDay + t mod msPerDay"

record subscription_request =
  sessionToken :: "string option"
  schoolUuid :: "string option"
  requestId :: "string option"

text \<open>A field of the body is usable when it is present and not the empty string.\<close>

definition truthy :: "string option \<Rightarrow> bool" where
  "truthy x = (case x of None \<Rightarrow> False | Some s \<Rightarrow> s \<noteq> [])"

datatype validation = Valid string | Invalid | ValidationThrows

definition validateSchoolSession :: "db \<Rightarrow> int \<Rightarrow> string \<Rightarrow> string option \<Rightarrow> validation" where
  "validateSchoolSession d now tok expectedSchoolId =
     (case maybeSingle (condition d) (filter (\<lambda>r. token r = tok) (session_tokens d)) of
        Throws \<Rightarrow> ValidationThrows
      | Error \<Rightarrow> Invalid
      | Data None \<Rightarrow> Invalid
      | Data (Some row) \<Rightarrow>
          if is_revoked row \<or> expires_at row < now then Invalid
          else if user_type row \<noteq> School then Invalid
          else if truthy expectedSchoolId \<and> Some (user_id row) \<noteq> expectedSchoolId then Invalid
          else Valid (user_id row))"

text \<open>The readings of the clock while a request is approved, in the order they are taken.\<close>

record approval_times =
  t_session :: int
  t_processed :: int
  t_end :: int
  t_start :: int

record manage_response =
  http_status :: nat
  success :: bool
  message :: string

text \<open>\<open>data\<close> of a reply whose \<open>error\<close> the handler does not read.\<close>

definition data_of :: "'a option reply \<Rightarrow> 'a option" where
  "data_of r = (case r of Data x \<Rightarrow> x | _ \<Rightarrow> None)"

text \<open>The two updates of \<open>approve_request\<close>; the handler reads the result of neither.\<close>

definition mark_approved :: "string \<Rightarrow> string \<Rightarrow> int \<Rightarrow> db \<Rightarrow> db" where
  "mark_approved rid school processed d =
     d\<lparr>upgrade_requests :=
         map (\<lambda>r. if req_id r = rid
                   then r\<lparr>status := Approved, processed_at := Some processed,
                          processed_by := Some school\<rparr>
                   else r) (upgrade_requests d)\<rparr>"

definition activate_pro :: "string \<Rightarrow> int \<Rightarrow> int \<Rightarrow> db \<Rightarrow> db" where
  "activate_pro sid started ends d =
     d\<lparr>subscriptions :=
         map (\<lambda>r. if student_id r = sid
                   then r\<lparr>plan := Pro, start_date := started, end_date := Some ends,
                          tts_used := 0, is_active := True\<rparr>
                   else r) (subscriptions d)\<rparr>"

definition server_error :: manage_response where
  "server_error = \<lparr>http_status = 500, success = False, message = ''Unknown error''\<rparr>"

definition approve_request ::
  "approval_times \<Rightarrow> subscription_request \<Rightarrow> db \<Rightarrow> manage_response \<times> db" where
  "approve_request t body d =
     (if \<not> truthy (sessionToken body) \<or> \<not> truthy (schoolUuid body) \<or> \<not> truthy (requestId body)
      then (\<lparr>http_status = 400, success = False, message = ''Missing required fields''\<rparr>, d)
      else case (sessionToken body, schoolUuid body, requestId body) of
        (Some tok, Some school, Some rid) \<Rightarrow>
          (case validateSchoolSession d (t_session t) tok (Some school) of
             ValidationThrows \<Rightarrow> (server_error, d)
           | Invalid \<Rightarrow>
               (\<lparr>http_status = 401, success = False, message = ''Invalid session''\<rparr>, d)
           | Valid uuid \<Rightarrow>
               (case data_of (maybeSingle (condition d)
                       (filter (\<lambda>r. req_id r = rid) (upgrade_requests d))) of
                  None \<Rightarrow>
                    (\<lparr>http_status = 404, success = False,
                      message = ''Request not found or already processed''\<rparr>, d)
                | Some request \<Rightarrow>
                    if status request \<noteq> Pending then
                      (\<lparr>http_status = 404, success = False,
                        message = ''Request not found or already processed''\<rparr>, d)
                    else
                      (case data_of (maybeSingle (condition d)
                              (filter (\<lambda>r. stu_id r = req_student_id request) (students d))) of
                         None \<Rightarrow>
                           (\<lparr>http_status = 403, success = False, message = ''Unauthorized''\<rparr>, d)
                       | Some stu \<Rightarrow>
                           if school_id stu \<noteq> school then
                             (\<lparr>http_status = 403, success = False, message = ''Unauthorized''\<rparr>, d)
                           else
                             (case store_write d (mark_approved rid school (t_processed t)) of
                                (marked, d1) \<Rightarrow>
                                  if marked = Throws then (server_error, d1)
                                  else
                                    (case store_write d1
                                            (activate_pro (req_student_id request) (t_start t)
                                               (setDate_plus 30 (t_end t))) of
                                       (activated, d2) \<Rightarrow>
                                         if activated = Throws then (server_error, d2)
                                         else
                                           (\<lparr>http_status = 200, success = True,
                                             message = ''Pro plan activated for 30 days''\<rparr>,
                                            d2))))))
      | _ \<Rightarrow> (\<lparr>http_status = 400, success = False, message = ''Missing required fields''\<rparr>, d))"

section \<open>Scenarios\<close>

text \<open>A Pro student with an active, unexpired subscription and a given usage counter.\<close>

definition scenario_sub :: "int \<Rightarrow> subscription" where
  "scenario_sub used =
     \<lparr>sub_id = ''sub-1'', student_id = ''stu-1'', plan = Pro, start_date = 0,
      end_date = Some 2592000000, tts_used = used, tts_limit = 150000, is_active = True\<rparr>"

definition scenario_db :: "int \<Rightarrow> db" where
  "scenario_db used =
     \<lparr>subscriptions = [scenario_sub used], upgrade_requests = [], students = [],
      session_tokens = [], condition = Up, write_condition = Up\<rparr>"

section \<open>The client hook useSmartTTS\<close>

record tts_usage_info = usage_info +
  usingPremium :: bool

record smart_tts_state =
  isSpeaking :: bool
  isLoading :: bool
  tts_error :: "string option"
  currentVoiceId :: jsstring
  state_usageInfo :: "tts_usage_info option"

text \<open>
  The \<open>subscription\<close> object of a \<open>get_subscription\<close> reply as the client reads it: every
  field may be absent.
\<close>

record subscription_json =
  j_plan :: "plan option"
  j_tts_used :: "int option"
  j_tts_limit :: "int option"
  j_is_active :: "bool option"
  j_end_date :: "int option"

text \<open>
  What \<open>await supabase.functions.invoke('manage-subscription', ...)\<close> gives
  \<open>fetchUsageInfo\<close>. The client library catches the failure of its own request (the network,
  the relay, a status that is not 2xx) and resolves with \<open>error\<close>; the function answers its
  own failures in \<open>data.error\<close>. So a failed fetch is \<open>FetchError\<close>, and a fetch that worked
  is \<open>FetchData\<close>, with data that may hold a subscription. \<open>FetchThrows\<close> is the rejected
  promise that the \<open>catch\<close> of \<open>fetchUsageInfo\<close> is written for; no failure of the fetch
  takes this form.
\<close>

datatype subscription_fetch = FetchThrows | FetchError | FetchData "subscription_json option"

definition default_usage :: tts_usage_info where
  "default_usage =
     \<lparr>info_plan = Basic, ttsUsed = 0, ttsLimit = 150000, ttsRemaining = 150000,
      canUsePremium = False, usingPremium = False\<rparr>"

definition fetchUsageInfo ::
  "string option \<Rightarrow> subscription_fetch \<Rightarrow> int \<Rightarrow> smart_tts_state \<Rightarrow> smart_tts_state" where
  "fetchUsageInfo student fetched now st =
     (if student = None \<or> student = Some [] then st
      else case fetched of
        FetchThrows \<Rightarrow> st
      | FetchError \<Rightarrow> st\<lparr>state_usageInfo := Some default_usage\<rparr>
      | FetchData sub \<Rightarrow>
          (let pl = (case Option.bind sub j_plan of None \<Rightarrow> Basic | Some p \<Rightarrow> p);
               used = (case Option.bind sub j_tts_used of None \<Rightarrow> 0 | Some u \<Rightarrow> u);
               lim = (case Option.bind sub j_tts_limit of
                        None \<Rightarrow> 150000
                      | Some l \<Rightarrow> if l = 0 then 150000 else l);
               isActive = (case Option.bind sub j_is_active of None \<Rightarrow> True | Some a \<Rightarrow> a);
               expired = (case Option.bind sub j_end_date of None \<Rightarrow> False | Some e \<Rightarrow> e < now);
               can = (pl = Pro \<and> isActive \<and> \<not> expired \<and> used < lim)
           in st\<lparr>state_usageInfo :=
                  Some \<lparr>info_plan = pl, ttsUsed = used, ttsLimit = lim,
                        ttsRemaining = max 0 (lim - used), canUsePremium = can,
                        usingPremium = can\<rparr>\<rparr>))"

text \<open>\<open>clientAudioCache\<close> is a \<open>Map\<close> from key to data URL; it stores no time.\<close>

type_synonym client_cache = "(jsstring \<times> jsstring) list"

fun js_includes :: "jsstring \<Rightarrow> jsstring \<Rightarrow> bool" where
  "js_includes [] n = (n = [])"
| "js_includes (c # cs) n = (take (length n) (c # cs) = n \<or> js_includes cs n)"

text \<open>
  The cache lookup at the head of \<open>speakPremium\<close>: an entry that contains \<open>audio_data\<close> is
  deleted, any other non-empty entry is used.
\<close>

definition client_cache_purge :: "client_cache \<Rightarrow> jsstring \<Rightarrow> client_cache" where
  "client_cache_purge cache cacheKey =
     (case map_of cache cacheKey of
        Some cachedAudio \<Rightarrow>
          if cachedAudio \<noteq> [] \<and> js_includes cachedAudio (js ''audio_data'')
          then map_delete cache cacheKey else cache
      | None \<Rightarrow> cache)"

definition client_cache_get :: "client_cache \<Rightarrow> jsstring \<Rightarrow> jsstring option" where
  "client_cache_get cache cacheKey =
     (case map_of (client_cache_purge cache cacheKey) cacheKey of
        Some validCachedAudio \<Rightarrow> if validCachedAudio \<noteq> [] then Some validCachedAudio else None
      | None \<Rightarrow> None)"

text \<open>The size limit of 50 entries is applied before the new entry is set.\<close>

definition client_cache_put :: "client_cache \<Rightarrow> jsstring \<Rightarrow> jsstring \<Rightarrow> client_cache" where
  "client_cache_put cache cacheKey audioDataUrl =
     (let c = (if length cache > 50 then
                 (case cache of
                    [] \<Rightarrow> cache
                  | (firstKey, v) # rest \<Rightarrow>
                      if firstKey \<noteq> [] then map_delete cache firstKey else cache)
               else cache)
      in map_set c cacheKey audioDataUrl)"

definition client_cache_key :: "jsstring \<Rightarrow> jsstring \<Rightarrow> jsstring" where
  "client_cache_key voice txt = voice @ js '':'' @ take 200 txt"

record smart_tts_options =
  opt_text :: jsstring
  opt_voiceId :: "jsstring option"
  opt_language :: "jsstring option"

text \<open>
  What the client reads from \<open>supabase.functions.invoke('text-to-speech', ...)\<close>: an
  \<open>error\<close> for a status that is not 2xx, otherwise the JSON body with its \<open>error\<close>,
  \<open>audio\<close> and \<open>usageInfo\<close> fields.
\<close>

datatype tts_reply = InvokeError | ReplyData "string option" "jsstring option" "usage_info option"

fun client_view :: "response \<Rightarrow> tts_reply" where
  "client_view CorsOk = ReplyData None None None"
| "client_view (Failure st msg) =
     (if 200 \<le> st \<and> st \<le> 299 then ReplyData (Some msg) None None else InvokeError)"
| "client_view (FallbackToWebTTS why info) = ReplyData (Some ''FALLBACK_TO_WEB_TTS'') None info"
| "client_view (Audio a cached len info) = ReplyData None (Some a) info"

text \<open>How playing the audio element ends.\<close>

datatype playback = Played | AudioError | PlayRejected

text \<open>
  The state of the client, of the edge function and of the store, and what the
  environment does during one call of \<open>speak\<close>.
\<close>

record world =
  ui :: smart_tts_state
  clientAudioCache :: client_cache
  store :: db
  audioCache :: audio_cache
  vendor_log :: "vendor_request list"

record surroundings =
  lower_case :: "jsstring \<Rightarrow> jsstring"
  server_env :: env
  clock :: times
  vendor :: vendor_reply
  audio_playback :: playback
  web_speaks :: bool

text \<open>
  The defaults of the destructured options and the body sent to the edge function.
  In \<open>speakPremium\<close> below the usage of a reply is merged into \<open>prev.usageInfo!\<close>;
  \<open>speak\<close> calls it with a usage present, and an absent one stays absent in the model.
\<close>

definition chosen_voice :: "smart_tts_options \<Rightarrow> smart_tts_state \<Rightarrow> jsstring" where
  "chosen_voice options st =
     (case opt_voiceId options of None \<Rightarrow> currentVoiceId st | Some v \<Rightarrow> v)"

definition chosen_language :: "smart_tts_options \<Rightarrow> jsstring" where
  "chosen_language options =
     (case opt_language options of None \<Rightarrow> js ''en-IN'' | Some l \<Rightarrow> l)"

definition premium_body :: "string option \<Rightarrow> smart_tts_options \<Rightarrow> smart_tts_state \<Rightarrow> tts_body" where
  "premium_body student options st =
     \<lparr>body_text = Some (opt_text options), voiceId = Some (chosen_voice options st),
      language = Some (chosen_language options), studentId = student\<rparr>"

definition speakPremium :: "surroundings \<Rightarrow> string option \<Rightarrow> smart_tts_options \<Rightarrow> world \<Rightarrow> bool \<times> world" where
  "speakPremium env student options w =
     (let txt = opt_text options;
          cacheKey = client_cache_key (chosen_voice options (ui w)) txt;
          purged = client_cache_purge (clientAudioCache w) cacheKey;
          play = (\<lambda>w'. case audio_playback env of
                     Played \<Rightarrow> (True, w'\<lparr>ui := (ui w')\<lparr>isSpeaking := False, isLoading := False\<rparr>\<rparr>)
                   | AudioError \<Rightarrow> (False, w'\<lparr>ui := (ui w')\<lparr>isSpeaking := False, isLoading := False\<rparr>\<rparr>)
                   | PlayRejected \<Rightarrow> (False, w'))
      in case client_cache_get (clientAudioCache w) cacheKey of
           Some validCachedAudio \<Rightarrow> play (w\<lparr>clientAudioCache := purged\<rparr>)
         | None \<Rightarrow>
             (let r = serve (lower_case env) (server_env env) (clock env) (vendor env) POST
                        (Some (premium_body student options (ui w))) (store w) (audioCache w);
                  w1 = w\<lparr>clientAudioCache := purged, store := db_after r,
                         audioCache := cache_after r,
                         vendor_log := vendor_log w @ vendor_requests r\<rparr>
              in case client_view (response r) of
                   InvokeError \<Rightarrow> (False, w1)
                 | ReplyData (Some err) a info \<Rightarrow> (False, w1)
                 | ReplyData None None info \<Rightarrow> (False, w1)
                 | ReplyData None (Some a) info \<Rightarrow>
                     if a = [] then (False, w1)
                     else
                       (let audioDataUrl = js ''data:audio/mp3;base64,'' @ a;
                            st1 = (case info of
                                     None \<Rightarrow> ui w1
                                   | Some i \<Rightarrow>
                                       (ui w1)\<lparr>state_usageInfo :=
                                         map_option (\<lambda>u. u\<lparr>ttsUsed := ttsUsed i,
                                             ttsRemaining := ttsRemaining i,
                                             canUsePremium := canUsePremium i\<rparr>)
                                           (state_usageInfo (ui w1))\<rparr>)
                        in play (w1\<lparr>ui := st1,
                                   clientAudioCache :=
                                     client_cache_put purged cacheKey audioDataUrl\<rparr>))))"

definition speakWeb :: "surroundings \<Rightarrow> smart_tts_options \<Rightarrow> world \<Rightarrow> bool \<times> world" where
  "speakWeb env options w =
     (if web_speaks env
      then (True, w\<lparr>ui := (ui w)\<lparr>isSpeaking := True, isLoading := False\<rparr>\<rparr>)
      else (False, w))"

datatype backend = Premium | Web

text \<open>
  The routing decision of \<open>speak\<close>: whether Premium is used and whether the cached usage
  is marked as exhausted.
\<close>

definition route :: "string option \<Rightarrow> tts_usage_info option \<Rightarrow> int \<Rightarrow> bool \<times> bool" where
  "route student info textLength =
     (if student = None \<or> student = Some [] then (False, False)
      else case info of
        None \<Rightarrow> (False, False)
      | Some u \<Rightarrow>
          if info_plan u = Basic then (False, False)
          else if canUsePremium u \<and> ttsRemaining u \<ge> textLength then (True, False)
          else (False, ttsRemaining u < textLength))"

definition speak :: "surroundings \<Rightarrow> string option \<Rightarrow> smart_tts_options \<Rightarrow> world \<Rightarrow> backend list \<times> world" where
  "speak env student options w =
     (let txt = opt_text options
      in if txt = [] \<or> trim txt = [] then ([], w)
         else
           (let usageInfo0 = state_usageInfo (ui w);
                st1 = (ui w)\<lparr>isSpeaking := False, isLoading := True, tts_error := None\<rparr>;
                (usePremium, limitReached) = route student usageInfo0 (int (length txt));
                st2 = (if limitReached
                       then st1\<lparr>state_usageInfo :=
                              map_option (\<lambda>u. u\<lparr>canUsePremium := False, usingPremium := False\<rparr>)
                                (state_usageInfo st1)\<rparr>
                       else st1);
                w2 = w\<lparr>ui := st2\<rparr>;
                failed = (\<lambda>w'. w'\<lparr>ui := (ui w')\<lparr>isLoading := False, tts_error := Some ''TTS failed''\<rparr>\<rparr>)
            in if usePremium then
                 (case speakPremium env student options w2 of
                    (True, w3) \<Rightarrow> ([Premium], w3)
                  | (False, w3) \<Rightarrow>
                      (case speakWeb env options w3 of
                         (True, w4) \<Rightarrow> ([Premium, Web], w4)
                       | (False, w4) \<Rightarrow> ([Premium, Web], failed w4)))
               else
                 (case speakWeb env options w2 of
                    (True, w3) \<Rightarrow> ([Web], w3)
                  | (False, w3) \<Rightarrow> ([Web], failed w3))))"

definition scenario_env :: env where
  "scenario_env = \<lparr>SPEECHIFY_API_KEY = True, SUPABASE_URL = True, SUPABASE_SERVICE_ROLE_KEY = True\<rparr>"

definition scenario_times :: times where
  "scenario_times = \<lparr>t_usage = 1000, t_clean = 1000, t_store = 2000\<rparr>"

definition scenario_body :: tts_body where
  "scenario_body =
     \<lparr>body_text = Some (js ''Hello''), voiceId = None, language = None, studentId = Some ''stu-1''\<rparr>"

text \<open>
  \<open>toLowerCase\<close> on the letters A to Z, where every implementation agrees; the scenarios
  use texts of ASCII characters.
\<close>

definition ascii_lower :: "jsstring \<Rightarrow> jsstring" where
  "ascii_lower s = map (\<lambda>u. if 0x41 \<le> u \<and> u \<le> 0x5A then u + 0x20 else u) s"

text \<open>A server cache that holds audio for the text \<open>Hello\<close> and the default voice.\<close>

definition scenario_cache :: audio_cache where
  "scenario_cache =
     [(js ''simba-multilingual:henry:hello'', \<lparr>audio = js ''QUJD'', timestamp = 0\<rparr>)]"

text \<open>The same student when the store answers every write with an error value.\<close>

definition scenario_db_not_writing :: "int \<Rightarrow> db" where
  "scenario_db_not_writing used = (scenario_db used)\<lparr>write_condition := Failing\<rparr>"

text \<open>The vendor call did not deliver audio.\<close>

definition vendor_failed :: "vendor_reply \<Rightarrow> bool" where
  "vendor_failed v = (case v of Ok200 (Some a) \<Rightarrow> a = [] | _ \<Rightarrow> True)"

definition scenario_state :: "tts_usage_info option \<Rightarrow> smart_tts_state" where
  "scenario_state info =
     \<lparr>isSpeaking = False, isLoading = False, tts_error = None, currentVoiceId = js ''henry'',
      state_usageInfo = info\<rparr>"

definition scenario_pro_info :: tts_usage_info where
  "scenario_pro_info =
     \<lparr>info_plan = Pro, ttsUsed = 0, ttsLimit = 150000, ttsRemaining = 150000,
      canUsePremium = True, usingPremium = True\<rparr>"

definition scenario_world :: "tts_usage_info option \<Rightarrow> world" where
  "scenario_world info =
     \<lparr>ui = scenario_state info, clientAudioCache = [], store = scenario_db 0, audioCache = [],
      vendor_log = []\<rparr>"

definition scenario_surroundings :: "vendor_reply \<Rightarrow> surroundings" where
  "scenario_surroundings v =
     \<lparr>lower_case = ascii_lower, server_env = scenario_env, clock = scenario_times, vendor = v,
      audio_playback = Played, web_speaks = True\<rparr>"

definition scenario_options :: "string \<Rightarrow> smart_tts_options" where
  "scenario_options s = \<lparr>opt_text = js s, opt_voiceId = None, opt_language = None\<rparr>"

text \<open>A later call: every clock reading is one millisecond past the TTL of an entry stored at 2000.\<close>

definition late_times :: times where
  "late_times = \<lparr>t_usage = 1802001, t_clean = 1802001, t_store = 1802001\<rparr>"

definition late_surroundings :: surroundings where
  "late_surroundings = (scenario_surroundings VendorRejected)\<lparr>clock := late_times\<rparr>"

text \<open>The world after a Pro student has heard \<open>Hello\<close> from the Premium backend.\<close>

definition world_after_hello :: world where
  "world_after_hello =
     snd (speak (scenario_surroundings (Ok200 (Some (js ''QUJD'')))) (Some ''stu-1'')
            (scenario_options ''Hello'') (scenario_world (Some scenario_pro_info)))"

text \<open>
  A school with a session, one of its students on the Basic plan with 1234 characters
  used, and the student's pending upgrade request.
\<close>

definition approval_db :: db where
  "approval_db =
     \<lparr>subscriptions =
        [\<lparr>sub_id = ''sub-1'', student_id = ''stu-1'', plan = Basic, start_date = 0,
          end_date = None, tts_used = 1234, tts_limit = 150000, is_active = True\<rparr>],
      upgrade_requests =
        [\<lparr>req_id = ''req-1'', req_student_id = ''stu-1'', status = Pending,
          processed_at = None, processed_by = None, rejection_reason = None\<rparr>],
      students = [\<lparr>stu_id = ''stu-1'', school_id = ''school-1''\<rparr>],
      session_tokens =
        [\<lparr>token = ''tok-1'', user_id = ''school-1'', user_type = School,
          expires_at = 9000000, is_revoked = False\<rparr>],
      condition = Up, write_condition = Up\<rparr>"

text \<open>The same school and request when the student has no subscription row.\<close>

definition approval_db_no_row :: db where
  "approval_db_no_row = approval_db\<lparr>subscriptions := []\<rparr>"

definition approval_body :: subscription_request where
  "approval_body =
     \<lparr>sessionToken = Some ''tok-1'', schoolUuid = Some ''school-1'', requestId = Some ''req-1''\<rparr>"

definition approval_clock :: approval_times where
  "approval_clock = \<lparr>t_session = 5000, t_processed = 5001, t_end = 5002, t_start = 5003\<rparr>"

section \<open>Properties of checkAndTrackUsage\<close>

lemma maybeSingle_Some:
  "maybeSingle c rows = Data (Some r) \<longleftrightarrow> c = Up \<and> rows = [r]"
  by (auto simp: maybeSingle_def split: condition.splits list.splits)

lemma select_subscription_Some:
  "select_subscription d sid = Data (Some sub) \<longleftrightarrow>
     condition d = Up \<and> filter (\<lambda>r. student_id r = sid) (subscriptions d) = [sub]"
  by (simp add: select_subscription_def maybeSingle_Some)

lemma filter_student_update:
  "filter (\<lambda>r. student_id r = sid)
     (map (\<lambda>r. if sub_id r = i then r\<lparr>tts_used := v\<rparr> else r) rows) =
   map (\<lambda>r. if sub_id r = i then r\<lparr>tts_used := v\<rparr> else r)
     (filter (\<lambda>r. student_id r = sid) rows)"
  by (induction rows) auto

lemma stored_usage_update:
  assumes "select_subscription d sid = Data (Some sub)"
  shows "stored_usage (set_tts_used d (sub_id sub) v) sid = Some v"
  using assms
  by (simp add: select_subscription_Some stored_usage_def set_tts_used_def
      filter_student_update)

lemma stored_usage_select:
  "select_subscription d sid = Data (Some sub) \<Longrightarrow> stored_usage d sid = Some (tts_used sub)"
  by (simp add: select_subscription_Some stored_usage_def)

lemma update_tts_used_cases:
  "write_condition d = Up \<Longrightarrow> update_tts_used d i v = (Data (), set_tts_used d i v)"
  "write_condition d = Failing \<Longrightarrow> update_tts_used d i v = (Error, d)"
  "write_condition d = Unreachable \<Longrightarrow> update_tts_used d i v = (Throws, d)"
  by (simp_all add: update_tts_used_def store_write_def)

lemma usage_decide_Grant:
  "usage_decide sel now n = Grant i v r \<longleftrightarrow>
     (\<exists>sub. sel = Data (Some sub) \<and> qualifies sub now n \<and> i = sub_id sub \<and>
        v = tts_used sub + n \<and>
        r = \<lparr>canUse = True,
             usageInfo = Some \<lparr>info_plan = Pro, ttsUsed = tts_used sub + n,
               ttsLimit = tts_limit sub, ttsRemaining = tts_limit sub - (tts_used sub + n),
               canUsePremium = (tts_used sub + n < tts_limit sub)\<rparr>,
             reason = None\<rparr>)"
  by (auto simp: usage_decide_def qualifies_def Let_def split: reply.splits option.splits)

lemma usage_decide_Deny:
  "usage_decide sel now n = Deny r \<Longrightarrow>
     \<not> canUse r \<and> reason r \<noteq> None \<and> \<not> (\<exists>sub. sel = Data (Some sub) \<and> qualifies sub now n)"
  by (auto simp: usage_decide_def qualifies_def Let_def split: reply.splits option.splits if_splits)

lemma usage_decide_qualifies:
  assumes "sel = Data (Some sub)" and "qualifies sub now n"
  shows "usage_decide sel now n =
           Grant (sub_id sub) (tts_used sub + n)
             \<lparr>canUse = True,
              usageInfo = Some \<lparr>info_plan = Pro, ttsUsed = tts_used sub + n,
                ttsLimit = tts_limit sub, ttsRemaining = tts_limit sub - (tts_used sub + n),
                canUsePremium = (tts_used sub + n < tts_limit sub)\<rparr>,
              reason = None\<rparr>"
  using assms by (simp add: usage_decide_def qualifies_def Let_def)

text \<open>A grant that the store writes, and a grant that the store does not write.\<close>

lemma checkAndTrackUsage_granted:
  assumes "select_subscription d sid = Data (Some sub)" and "qualifies sub now n"
    and "write_condition d = Up"
  shows "checkAndTrackUsage d now sid n =
           (\<lparr>canUse = True,
             usageInfo = Some \<lparr>info_plan = Pro, ttsUsed = tts_used sub + n,
               ttsLimit = tts_limit sub, ttsRemaining = tts_limit sub - (tts_used sub + n),
               canUsePremium = (tts_used sub + n < tts_limit sub)\<rparr>,
             reason = None\<rparr>,
            set_tts_used d (sub_id sub) (tts_used sub + n))"
  using usage_decide_qualifies [OF assms(1,2)] assms(3)
  by (simp add: checkAndTrackUsage_def update_tts_used_cases)

lemma checkAndTrackUsage_not_written:
  assumes "select_subscription d sid = Data (Some sub)" and "qualifies sub now n"
    and "write_condition d = Failing"
  shows "checkAndTrackUsage d now sid n =
           (\<lparr>canUse = True,
             usageInfo = Some \<lparr>info_plan = Pro, ttsUsed = tts_used sub + n,
               ttsLimit = tts_limit sub, ttsRemaining = tts_limit sub - (tts_used sub + n),
               canUsePremium = (tts_used sub + n < tts_limit sub)\<rparr>,
             reason = None\<rparr>, d)"
  using usage_decide_qualifies [OF assms(1,2)] assms(3)
  by (simp add: checkAndTrackUsage_def update_tts_used_cases)

lemma checkAndTrackUsage_canUse:
  assumes "canUse (fst (checkAndTrackUsage d now sid n))"
  shows "\<exists>sub. select_subscription d sid = Data (Some sub) \<and> qualifies sub now n \<and>
           write_condition d \<noteq> Unreachable \<and>
           (write_condition d = Up \<longrightarrow>
              snd (checkAndTrackUsage d now sid n) =
                set_tts_used d (sub_id sub) (tts_used sub + n))"
proof (cases "usage_decide (select_subscription d sid) now n")
  case (Deny r)
  with usage_decide_Deny [OF Deny] assms show ?thesis
    by (simp add: checkAndTrackUsage_def)
next
  case (Grant i v r)
  then obtain sub where sub: "select_subscription d sid = Data (Some sub)"
    and q: "qualifies sub now n" and iv: "i = sub_id sub" "v = tts_used sub + n"
    by (auto simp: usage_decide_Grant)
  from assms Grant have "write_condition d \<noteq> Unreachable"
    by (cases "write_condition d")
       (auto simp: checkAndTrackUsage_def update_tts_used_cases usage_check_failed_def)
  moreover have "write_condition d = Up \<longrightarrow>
      snd (checkAndTrackUsage d now sid n) = set_tts_used d (sub_id sub) (tts_used sub + n)"
    using Grant iv by (simp add: checkAndTrackUsage_def update_tts_used_cases)
  ultimately show ?thesis using sub q by blast
qed

lemma scenario_select:
  "select_subscription (scenario_db used) ''stu-1'' = Data (Some (scenario_sub used))"
  by (simp add: select_subscription_def maybeSingle_def scenario_db_def scenario_sub_def)

lemma scenario_select_not_writing:
  "select_subscription (scenario_db_not_writing used) ''stu-1'' = Data (Some (scenario_sub used))"
  by (simp add: select_subscription_def maybeSingle_def scenario_db_not_writing_def
      scenario_db_def scenario_sub_def)

lemma scenario_qualifies:
  "qualifies (scenario_sub used) 1000 n \<longleftrightarrow> used + n \<le> 150000"
  by (simp add: qualifies_def isExpired_def scenario_sub_def)

text \<open>
  When the store writes, \<open>checkAndTrackUsage\<close> grants exactly when the select returns the
  student's subscription and that row is Pro, active, not past its end date and
  \<open>tts_used + textLength \<le> tts_limit\<close>; a grant raises the stored counter by exactly
  \<open>textLength\<close> and reports the raised counter; a denial carries a reason.
\<close>

lemma checkAndTrackUsage_when_written:
  assumes "write_condition d = Up"
  shows "(canUse (fst (checkAndTrackUsage d now sid n)) \<longleftrightarrow>
            (\<exists>sub. select_subscription d sid = Data (Some sub) \<and> plan sub = Pro \<and>
               is_active sub \<and> \<not> isExpired sub now \<and> tts_used sub + n \<le> tts_limit sub)) \<and>
         (canUse (fst (checkAndTrackUsage d now sid n)) \<longrightarrow>
            (\<exists>u. stored_usage d sid = Some u \<and>
               stored_usage (snd (checkAndTrackUsage d now sid n)) sid = Some (u + n) \<and>
               map_option ttsUsed (usageInfo (fst (checkAndTrackUsage d now sid n))) =
                 Some (u + n))) \<and>
         (\<not> canUse (fst (checkAndTrackUsage d now sid n)) \<longrightarrow>
            reason (fst (checkAndTrackUsage d now sid n)) \<noteq> None)"
proof (cases "canUse (fst (checkAndTrackUsage d now sid n))")
  case True
  from checkAndTrackUsage_canUse [OF True] assms obtain sub where
    sub: "select_subscription d sid = Data (Some sub)" and q: "qualifies sub now n"
    by blast
  from checkAndTrackUsage_granted [OF sub q assms] stored_usage_update [OF sub]
    stored_usage_select [OF sub] sub q
  show ?thesis by (auto simp: qualifies_def)
next
  case False
  have "\<not> (\<exists>sub. select_subscription d sid = Data (Some sub) \<and> qualifies sub now n)"
    using False checkAndTrackUsage_granted [OF _ _ assms, of sid _ now n] by auto
  moreover have "reason (fst (checkAndTrackUsage d now sid n)) \<noteq> None"
  proof (cases "usage_decide (select_subscription d sid) now n")
    case (Deny r)
    with usage_decide_Deny [OF Deny] show ?thesis by (simp add: checkAndTrackUsage_def)
  next
    case (Grant i v r)
    with False assms show ?thesis
      by (auto simp: checkAndTrackUsage_def update_tts_used_cases usage_decide_Grant)
  qed
  ultimately show ?thesis using False by (auto simp: qualifies_def)
qed

text \<open>
  C2 fails on the code where the store answers the update with an error value after the
  select has succeeded. \<open>checkAndTrackUsage\<close> does not read the result of the update: for
  a Pro student with usage 0 of 150000 and a text of 5 characters it reports a grant and
  the usage 5, and the stored counter is still 0.
\<close>

theorem checkAndTrackUsage_grant_not_stored:
  "canUse (fst (checkAndTrackUsage (scenario_db_not_writing 0) 1000 ''stu-1'' 5)) \<and>
   map_option ttsUsed (usageInfo (fst (checkAndTrackUsage (scenario_db_not_writing 0) 1000
     ''stu-1'' 5))) = Some 5 \<and>
   stored_usage (scenario_db_not_writing 0) ''stu-1'' = Some 0 \<and>
   stored_usage (snd (checkAndTrackUsage (scenario_db_not_writing 0) 1000 ''stu-1'' 5))
     ''stu-1'' = Some 0"
proof -
  have q: "qualifies (scenario_sub 0) 1000 5" by (simp add: scenario_qualifies)
  have w: "write_condition (scenario_db_not_writing 0) = Failing"
    by (simp add: scenario_db_not_writing_def)
  show ?thesis
    unfolding checkAndTrackUsage_not_written [OF scenario_select_not_writing q w]
    using stored_usage_select [OF scenario_select_not_writing [of 0]]
    by (simp add: scenario_sub_def)
qed

text \<open>
  C3. A denied call leaves the whole store as it was, whatever the cause of the denial.
\<close>

theorem checkAndTrackUsage_denial_untouched:
  "\<not> canUse (fst (checkAndTrackUsage d now sid n)) \<Longrightarrow> snd (checkAndTrackUsage d now sid n) = d"
proof (cases "usage_decide (select_subscription d sid) now n")
  case (Deny r)
  then show ?thesis by (simp add: checkAndTrackUsage_def)
next
  case (Grant i v r)
  assume denied: "\<not> canUse (fst (checkAndTrackUsage d now sid n))"
  from Grant have r: "canUse r" by (auto simp: usage_decide_Grant)
  show ?thesis
  proof (cases "write_condition d")
    case Up
    with Grant have "fst (checkAndTrackUsage d now sid n) = r"
      by (simp add: checkAndTrackUsage_def update_tts_used_cases)
    with denied r show ?thesis by simp
  next
    case Failing
    with Grant show ?thesis
      by (simp add: checkAndTrackUsage_def update_tts_used_cases)
  next
    case Unreachable
    with Grant show ?thesis
      by (simp add: checkAndTrackUsage_def update_tts_used_cases)
  qed
qed

text \<open>Scenario B: usage 149995 of 150000 and a text of 10 characters: denied, usage unchanged.\<close>

theorem checkAndTrackUsage_denial_untouched_witness:
  "\<not> canUse (fst (checkAndTrackUsage (scenario_db 149995) 1000 ''stu-1'' 10)) \<and>
   stored_usage (snd (checkAndTrackUsage (scenario_db 149995) 1000 ''stu-1'' 10)) ''stu-1'' =
     Some 149995"
proof -
  have denied: "\<not> canUse (fst (checkAndTrackUsage (scenario_db 149995) 1000 ''stu-1'' 10))"
    by (simp add: checkAndTrackUsage_def usage_decide_def scenario_select isExpired_def
        scenario_sub_def)
  have "stored_usage (scenario_db 149995) ''stu-1'' = Some 149995"
    using stored_usage_select [OF scenario_select [of 149995]] by (simp add: scenario_sub_def)
  with denied checkAndTrackUsage_denial_untouched [OF denied] show ?thesis by simp
qed

section \<open>Properties of the edge function and of the router\<close>

lemma trim_Nil: "trim [] = []"
  by (simp add: trim_def)

lemma sanitizeText_Nil: "sanitizeText [] = []"
  by (simp add: sanitizeText_def strip_markdown_def trim_def)

lemma serve_granted:
  assumes "SPEECHIFY_API_KEY e" "SUPABASE_URL e" "SUPABASE_SERVICE_ROLE_KEY e"
    and "body_text b = Some txt" "sanitizeText txt \<noteq> []"
    and "studentId b = Some sid" "sid \<noteq> []"
    and "checkAndTrackUsage d (t_usage t) sid (int (length (truncate_text (sanitizeText txt)))) =
           (r, d')"
    and "canUse r"
  shows "serve lower e t v POST (Some b) d cache =
           synthesize lower t v (truncate_text (sanitizeText txt)) (voice_of b) (language_of b)
             (usageInfo r) d' cache"
proof -
  from assms(5) have "txt \<noteq> []" using sanitizeText_Nil by auto
  then show ?thesis
    using assms by (simp add: serve_def Let_def)
qed

lemma serve_tracked:
  assumes "SPEECHIFY_API_KEY e" "SUPABASE_URL e" "SUPABASE_SERVICE_ROLE_KEY e"
    and "body_text b = Some txt" "sanitizeText txt \<noteq> []"
    and "studentId b = Some sid" "sid \<noteq> []"
    and "select_subscription d sid = Data (Some sub)"
    and "qualifies sub (t_usage t) (int (length (truncate_text (sanitizeText txt))))"
    and "write_condition d = Up"
  shows "serve lower e t v POST (Some b) d cache =
           synthesize lower t v (truncate_text (sanitizeText txt)) (voice_of b) (language_of b)
             (Some \<lparr>info_plan = Pro,
                ttsUsed = tts_used sub + int (length (truncate_text (sanitizeText txt))),
                ttsLimit = tts_limit sub,
                ttsRemaining =
                  tts_limit sub - (tts_used sub + int (length (truncate_text (sanitizeText txt)))),
                canUsePremium =
                  (tts_used sub + int (length (truncate_text (sanitizeText txt))) < tts_limit sub)\<rparr>)
             (set_tts_used d (sub_id sub)
                (tts_used sub + int (length (truncate_text (sanitizeText txt))))) cache"
  using serve_granted [OF assms(1-7) checkAndTrackUsage_granted [OF assms(8-10)]] by simp

lemma serve_not_written:
  assumes "SPEECHIFY_API_KEY e" "SUPABASE_URL e" "SUPABASE_SERVICE_ROLE_KEY e"
    and "body_text b = Some txt" "sanitizeText txt \<noteq> []"
    and "studentId b = Some sid" "sid \<noteq> []"
    and "select_subscription d sid = Data (Some sub)"
    and "qualifies sub (t_usage t) (int (length (truncate_text (sanitizeText txt))))"
    and "write_condition d = Failing"
  shows "serve lower e t v POST (Some b) d cache =
           synthesize lower t v (truncate_text (sanitizeText txt)) (voice_of b) (language_of b)
             (Some \<lparr>info_plan = Pro,
                ttsUsed = tts_used sub + int (length (truncate_text (sanitizeText txt))),
                ttsLimit = tts_limit sub,
                ttsRemaining =
                  tts_limit sub - (tts_used sub + int (length (truncate_text (sanitizeText txt)))),
                canUsePremium =
                  (tts_used sub + int (length (truncate_text (sanitizeText txt))) < tts_limit sub)\<rparr>)
             d cache"
  using serve_granted [OF assms(1-7) checkAndTrackUsage_not_written [OF assms(8-10)]] by simp

lemma synthesize_hit:
  "cache_lookup (t_clean t) cache (getCacheKey lower txt voice (js ''simba-multilingual'')) = Some c \<Longrightarrow>
   synthesize lower t v txt voice lang info d cache =
     \<lparr>response = Audio (audio c) True (length txt) info, db_after = d,
      cache_after = cleanCache (t_clean t) cache, vendor_requests = []\<rparr>"
  by (simp add: synthesize_def Let_def)

lemma synthesize_db: "db_after (synthesize lower t v txt voice lang info d cache) = d"
  by (simp add: synthesize_def Let_def split: option.splits vendor_reply.splits)

text \<open>
  When the store writes, a granted request whose audio is found in the server cache makes
  no vendor call and the stored counter has grown by the full length of the truncated,
  sanitized text: \<open>checkAndTrackUsage\<close> runs before the cache lookup.
\<close>

lemma serve_cache_hit_when_written:
  assumes "SPEECHIFY_API_KEY e" "SUPABASE_URL e" "SUPABASE_SERVICE_ROLE_KEY e"
    and "body_text b = Some txt" "sanitizeText txt \<noteq> []"
    and "studentId b = Some sid" "sid \<noteq> []"
    and "select_subscription d sid = Data (Some sub)"
    and "qualifies sub (t_usage t) (int (length (truncate_text (sanitizeText txt))))"
    and "write_condition d = Up"
    and "cache_lookup (t_clean t) cache
           (getCacheKey lower (truncate_text (sanitizeText txt)) (voice_of b)
              (js ''simba-multilingual'')) = Some c"
  shows "(\<exists>info. response (serve lower e t v POST (Some b) d cache) =
            Audio (audio c) True (length (truncate_text (sanitizeText txt))) info) \<and>
         vendor_requests (serve lower e t v POST (Some b) d cache) = [] \<and>
         stored_usage d sid = Some (tts_used sub) \<and>
         stored_usage (db_after (serve lower e t v POST (Some b) d cache)) sid =
           Some (tts_used sub + int (length (truncate_text (sanitizeText txt))))"
  using stored_usage_update [OF assms(8)] stored_usage_select [OF assms(8)]
  unfolding serve_tracked [OF assms(1-10)] synthesize_hit [OF assms(11)]
  by simp

lemmas eval_text = sanitizeText_def strip_markdown_def js_def trim_def is_space_def
  is_line_terminator_def is_high_def is_low_def truncate_text_def

lemma sanitize_Hello: "sanitizeText (js ''Hello'') = js ''Hello''"
  by (simp add: eval_text)

lemma truncate_Hello: "truncate_text (js ''Hello'') = js ''Hello''"
  by (simp add: eval_text)

lemma scenario_key:
  "getCacheKey ascii_lower (js ''Hello'') (js ''henry'') (js ''simba-multilingual'') =
     js ''simba-multilingual:henry:hello''"
  unfolding getCacheKey_def sanitize_Hello by (simp add: js_def ascii_lower_def)

lemma scenario_hit:
  "cache_lookup (t_clean scenario_times) scenario_cache
     (getCacheKey ascii_lower (truncate_text (sanitizeText (js ''Hello'')))
        (voice_of scenario_body) (js ''simba-multilingual'')) =
   Some \<lparr>audio = js ''QUJD'', timestamp = 0\<rparr>"
  unfolding sanitize_Hello truncate_Hello
  by (simp add: voice_of_def scenario_body_def scenario_key cache_lookup_def cleanCache_def
      scenario_cache_def scenario_times_def CACHE_TTL_MS_def)

lemma scenario_length: "int (length (truncate_text (sanitizeText (js ''Hello'')))) = 5"
  unfolding sanitize_Hello truncate_Hello by (simp add: js_def)

lemma scenario_speakable: "sanitizeText (js ''Hello'') \<noteq> []"
  unfolding sanitize_Hello by (simp add: js_def)

text \<open>
  The text \<open>Hello\<close> is served from the cache under the key
  \<open>simba-multilingual:henry:hello\<close> and, the store writing, five characters are billed.
\<close>

lemma serve_cache_hit_billed:
  "response
     (serve ascii_lower scenario_env scenario_times VendorRejected POST (Some scenario_body)
        (scenario_db 0) scenario_cache) =
     Audio (js ''QUJD'') True 5
       (Some \<lparr>info_plan = Pro, ttsUsed = 5, ttsLimit = 150000, ttsRemaining = 149995,
          canUsePremium = True\<rparr>) \<and>
   vendor_requests
     (serve ascii_lower scenario_env scenario_times VendorRejected POST (Some scenario_body)
        (scenario_db 0) scenario_cache) = [] \<and>
   stored_usage (scenario_db 0) ''stu-1'' = Some 0 \<and>
   stored_usage
     (db_after (serve ascii_lower scenario_env scenario_times VendorRejected POST
        (Some scenario_body) (scenario_db 0) scenario_cache)) ''stu-1'' = Some 5"
proof -
  have q: "qualifies (scenario_sub 0) (t_usage scenario_times)
             (int (length (truncate_text (sanitizeText (js ''Hello'')))))"
    unfolding scenario_length by (simp add: scenario_times_def scenario_qualifies)
  have served: "serve ascii_lower scenario_env scenario_times VendorRejected POST
      (Some scenario_body) (scenario_db 0) scenario_cache =
     synthesize ascii_lower scenario_times VendorRejected
       (truncate_text (sanitizeText (js ''Hello''))) (voice_of scenario_body)
       (language_of scenario_body)
       (Some \<lparr>info_plan = Pro, ttsUsed = 5, ttsLimit = 150000, ttsRemaining = 149995,
          canUsePremium = True\<rparr>)
       (set_tts_used (scenario_db 0) (sub_id (scenario_sub 0)) (tts_used (scenario_sub 0) + 5))
       scenario_cache"
    using serve_tracked [where e = scenario_env and b = scenario_body
        and sid = "''stu-1''" and d = "scenario_db 0" and sub = "scenario_sub 0"
        and t = scenario_times and lower = ascii_lower and v = VendorRejected
        and cache = scenario_cache, OF _ _ _ _ scenario_speakable _ _ scenario_select q]
    unfolding scenario_length
    by (simp add: scenario_env_def scenario_body_def scenario_db_def scenario_sub_def)
  show ?thesis
    unfolding served synthesize_hit [OF scenario_hit]
    using stored_usage_update [OF scenario_select [of 0], of 5]
      stored_usage_select [OF scenario_select [of 0]]
    by (simp add: scenario_sub_def truncate_Hello sanitize_Hello) (simp add: js_def)
qed

text \<open>
  C10 fails on the code where the store answers the update with an error value after the
  select has succeeded. The handler does run \<open>checkAndTrackUsage\<close> before the cache lookup,
  but \<open>checkAndTrackUsage\<close> does not read the result of its update: for a Pro student with
  usage 0 of 150000 the text \<open>Hello\<close> is granted and served from the server cache with
  the reported usage 5 and no vendor call, and the stored counter is still 0.
\<close>

theorem serve_cache_hit_not_billed:
  "response
     (serve ascii_lower scenario_env scenario_times VendorRejected POST (Some scenario_body)
        (scenario_db_not_writing 0) scenario_cache) =
     Audio (js ''QUJD'') True 5
       (Some \<lparr>info_plan = Pro, ttsUsed = 5, ttsLimit = 150000, ttsRemaining = 149995,
          canUsePremium = True\<rparr>) \<and>
   vendor_requests
     (serve ascii_lower scenario_env scenario_times VendorRejected POST (Some scenario_body)
        (scenario_db_not_writing 0) scenario_cache) = [] \<and>
   stored_usage (scenario_db_not_writing 0) ''stu-1'' = Some 0 \<and>
   stored_usage
     (db_after (serve ascii_lower scenario_env scenario_times VendorRejected POST
        (Some scenario_body) (scenario_db_not_writing 0) scenario_cache)) ''stu-1'' = Some 0"
proof -
  have q: "qualifies (scenario_sub 0) (t_usage scenario_times)
             (int (length (truncate_text (sanitizeText (js ''Hello'')))))"
    unfolding scenario_length by (simp add: scenario_times_def scenario_qualifies)
  have served: "serve ascii_lower scenario_env scenario_times VendorRejected POST
      (Some scenario_body) (scenario_db_not_writing 0) scenario_cache =
     synthesize ascii_lower scenario_times VendorRejected
       (truncate_text (sanitizeText (js ''Hello''))) (voice_of scenario_body)
       (language_of scenario_body)
       (Some \<lparr>info_plan = Pro, ttsUsed = 5, ttsLimit = 150000, ttsRemaining = 149995,
          canUsePremium = True\<rparr>)
       (scenario_db_not_writing 0) scenario_cache"
    using serve_not_written [where e = scenario_env and b = scenario_body
        and sid = "''stu-1''" and d = "scenario_db_not_writing 0"
        and sub = "scenario_sub 0" and t = scenario_times and lower = ascii_lower
        and v = VendorRejected and cache = scenario_cache,
        OF _ _ _ _ scenario_speakable _ _ scenario_select_not_writing q]
    unfolding scenario_length
    by (simp add: scenario_env_def scenario_body_def scenario_db_not_writing_def
        scenario_sub_def)
  show ?thesis
    unfolding served synthesize_hit [OF scenario_hit]
    using stored_usage_select [OF scenario_select_not_writing [of 0]]
    by (simp add: scenario_sub_def truncate_Hello sanitize_Hello) (simp add: js_def)
qed

lemma synthesize_miss_failed:
  assumes "cache_lookup (t_clean t) cache (getCacheKey lower txt voice (js ''simba-multilingual'')) = None"
    and "vendor_failed v"
  shows "\<exists>st msg rq. synthesize lower t v txt voice lang info d cache =
           \<lparr>response = Failure st msg, db_after = d,
            cache_after = cleanCache (t_clean t) cache, vendor_requests = [rq]\<rparr>"
  using assms
  by (auto simp: synthesize_def Let_def vendor_failed_def split: vendor_reply.splits option.splits)

lemma client_view_Failure:
  "client_view (Failure st msg) = InvokeError \<or>
   client_view (Failure st msg) = ReplyData (Some msg) None None"
  by simp

lemma chosen_voice_ui [simp]:
  "chosen_voice options (st\<lparr>isSpeaking := a, isLoading := b, tts_error := c\<rparr>) =
     chosen_voice options st"
  by (simp add: chosen_voice_def split: option.splits)

lemma premium_body_ui [simp]:
  "premium_body student options (st\<lparr>isSpeaking := a, isLoading := b, tts_error := c\<rparr>) =
     premium_body student options st"
  by (simp add: premium_body_def)

lemma speakPremium_failure:
  assumes "client_cache_get (clientAudioCache w)
             (client_cache_key (chosen_voice options (ui w)) (opt_text options)) = None"
    and "response (serve (lower_case env) (server_env env) (clock env) (vendor env) POST
           (Some (premium_body student options (ui w))) (store w) (audioCache w)) =
         Failure st msg"
  shows "\<exists>w'. speakPremium env student options w = (False, w') \<and> ui w' = ui w \<and>
           store w' = db_after (serve (lower_case env) (server_env env) (clock env) (vendor env)
             POST (Some (premium_body student options (ui w))) (store w) (audioCache w))"
  using assms client_view_Failure [of st msg]
  by (auto simp: speakPremium_def Let_def)

lemma route_premium:
  assumes "student = Some sid" "sid \<noteq> []" "info_plan u = Pro" "canUsePremium u"
    and "n \<le> ttsRemaining u"
  shows "route student (Some u) n = (True, False)"
  using assms by (simp add: route_def)

text \<open>
  C1, as amended. When a granted premium request, whose increment the store has written,
  misses both caches and the vendor call fails, \<open>speak\<close> falls back to the Web backend
  and, the Web backend speaking, sets no error; the stored counter keeps the increment
  that \<open>checkAndTrackUsage\<close> wrote before the vendor was called.
\<close>

theorem speak_vendor_failure:
  fixes env :: surroundings and options :: smart_tts_options and w :: world
  defines "txt \<equiv> opt_text options"
    and "voice \<equiv> chosen_voice options (ui w)"
    and "billed \<equiv> int (length (truncate_text (sanitizeText (opt_text options))))"
  assumes student: "student = Some sid" "sid \<noteq> []"
    and info: "state_usageInfo (ui w) = Some u" "info_plan u = Pro" "canUsePremium u"
      "int (length txt) \<le> ttsRemaining u"
    and speakable: "trim txt \<noteq> []" "sanitizeText txt \<noteq> []"
    and keys: "SPEECHIFY_API_KEY (server_env env)" "SUPABASE_URL (server_env env)"
      "SUPABASE_SERVICE_ROLE_KEY (server_env env)"
    and sub: "select_subscription (store w) sid = Data (Some sub)"
      "qualifies sub (t_usage (clock env)) billed"
    and written: "write_condition (store w) = Up"
    and client_miss: "client_cache_get (clientAudioCache w) (client_cache_key voice txt) = None"
    and server_miss: "cache_lookup (t_clean (clock env)) (audioCache w)
        (getCacheKey (lower_case env) (truncate_text (sanitizeText txt)) voice
           (js ''simba-multilingual'')) = None"
    and vendor: "vendor_failed (vendor env)"
    and web: "web_speaks env"
  shows "fst (speak env student options w) = [Premium, Web] \<and>
         tts_error (ui (snd (speak env student options w))) = None \<and>
         stored_usage (store w) sid = Some (tts_used sub) \<and>
         stored_usage (store (snd (speak env student options w))) sid =
           Some (tts_used sub + billed)"
proof -
  let ?b = "premium_body student options (ui w)"
  let ?st = "(ui w)\<lparr>isSpeaking := False, isLoading := True, tts_error := None\<rparr>"
  let ?w2 = "w\<lparr>ui := ?st\<rparr>"
  let ?r = "serve (lower_case env) (server_env env) (clock env) (vendor env) POST (Some ?b)
              (store w) (audioCache w)"
  have served: "?r = synthesize (lower_case env) (clock env) (vendor env)
                  (truncate_text (sanitizeText txt)) (voice_of ?b) (language_of ?b)
                  (Some \<lparr>info_plan = Pro, ttsUsed = tts_used sub + billed,
                     ttsLimit = tts_limit sub,
                     ttsRemaining = tts_limit sub - (tts_used sub + billed),
                     canUsePremium = (tts_used sub + billed < tts_limit sub)\<rparr>)
                  (set_tts_used (store w) (sub_id sub) (tts_used sub + billed))
                  (audioCache w)"
    unfolding billed_def txt_def
    by (rule serve_tracked)
       (use keys speakable student sub written in
          \<open>simp_all add: txt_def billed_def premium_body_def\<close>)
  have v: "voice_of ?b = voice" by (simp add: voice_of_def premium_body_def voice_def)
  from synthesize_miss_failed [OF server_miss vendor]
  obtain st msg where resp: "response ?r = Failure st msg"
    and db: "db_after ?r = set_tts_used (store w) (sub_id sub) (tts_used sub + billed)"
    unfolding served v by (metis tts_result.select_convs(1,2))
  from speakPremium_failure [of ?w2 options env student st msg] client_miss resp
  obtain w3 where p: "speakPremium env student options ?w2 = (False, w3)"
    and w3: "ui w3 = ?st" "store w3 = db_after ?r"
    by (auto simp: txt_def voice_def)
  have rt: "route student (state_usageInfo (ui w)) (int (length txt)) = (True, False)"
    using route_premium [OF student info(2,3,4)] info(1) by simp
  have run: "speak env student options w =
               ([Premium, Web], w3\<lparr>ui := (ui w3)\<lparr>isSpeaking := True, isLoading := False\<rparr>\<rparr>)"
    using speakable(1) rt p web
    by (auto simp: speak_def Let_def txt_def speakWeb_def trim_Nil)
  show ?thesis
    unfolding run
    using w3 db stored_usage_update [OF sub(1)] stored_usage_select [OF sub(1)]
    by simp
qed

lemma scenario_world_select:
  "select_subscription (store (scenario_world info)) ''stu-1'' = Data (Some (scenario_sub 0))"
  by (simp add: scenario_world_def scenario_select)

text \<open>Scenario D: the vendor answers 401 to a granted request for the text \<open>Hello\<close>.\<close>

theorem speak_vendor_failure_witness:
  "vendor_failed (NotOk 401) \<and>
   fst (speak (scenario_surroundings (NotOk 401)) (Some ''stu-1'') (scenario_options ''Hello'')
          (scenario_world (Some scenario_pro_info))) = [Premium, Web] \<and>
   stored_usage
     (store (snd (speak (scenario_surroundings (NotOk 401)) (Some ''stu-1'')
        (scenario_options ''Hello'') (scenario_world (Some scenario_pro_info))))) ''stu-1'' =
     Some 5"
proof -
  let ?sur = "scenario_surroundings (NotOk 401)"
  let ?w = "scenario_world (Some scenario_pro_info)"
  let ?opts = "scenario_options ''Hello''"
  have otext: "opt_text ?opts = js ''Hello''" by (simp add: scenario_options_def)
  have voice: "chosen_voice ?opts (ui ?w) = js ''henry''"
    by (simp add: chosen_voice_def scenario_options_def scenario_world_def scenario_state_def)
  have len: "int (length (truncate_text (sanitizeText (js ''Hello'')))) = 5"
    unfolding sanitize_Hello truncate_Hello by (simp add: js_def)
  have failed: "vendor_failed (NotOk 401)" by (simp add: vendor_failed_def)
  have "fst (speak ?sur (Some ''stu-1'') ?opts ?w) = [Premium, Web] \<and>
        tts_error (ui (snd (speak ?sur (Some ''stu-1'') ?opts ?w))) = None \<and>
        stored_usage (store ?w) ''stu-1'' = Some (tts_used (scenario_sub 0)) \<and>
        stored_usage (store (snd (speak ?sur (Some ''stu-1'') ?opts ?w))) ''stu-1'' =
          Some (tts_used (scenario_sub 0) + int (length (truncate_text (sanitizeText (opt_text ?opts)))))"
  proof (rule speak_vendor_failure [where u = scenario_pro_info])
    show "Some ''stu-1'' = Some ''stu-1''" by simp
    show "''stu-1'' \<noteq> []" by simp
    show "state_usageInfo (ui ?w) = Some scenario_pro_info"
      by (simp add: scenario_world_def scenario_state_def)
    show "info_plan scenario_pro_info = Pro" "canUsePremium scenario_pro_info"
      by (simp_all add: scenario_pro_info_def)
    show "int (length (opt_text ?opts)) \<le> ttsRemaining scenario_pro_info"
      by (simp add: otext js_def scenario_pro_info_def)
    show "trim (opt_text ?opts) \<noteq> []" by (simp add: otext eval_text)
    show "sanitizeText (opt_text ?opts) \<noteq> []" unfolding otext sanitize_Hello by (simp add: js_def)
    show "SPEECHIFY_API_KEY (server_env ?sur)" "SUPABASE_URL (server_env ?sur)"
      "SUPABASE_SERVICE_ROLE_KEY (server_env ?sur)"
      by (simp_all add: scenario_surroundings_def scenario_env_def)
    show "select_subscription (store ?w) ''stu-1'' = Data (Some (scenario_sub 0))"
      by (rule scenario_world_select)
    show "qualifies (scenario_sub 0) (t_usage (clock ?sur))
            (int (length (truncate_text (sanitizeText (opt_text ?opts)))))"
      unfolding otext len
      by (simp add: scenario_surroundings_def scenario_times_def scenario_qualifies)
    show "write_condition (store ?w) = Up"
      by (simp add: scenario_world_def scenario_db_def)
    show "client_cache_get (clientAudioCache ?w)
            (client_cache_key (chosen_voice ?opts (ui ?w)) (opt_text ?opts)) = None"
      by (simp add: scenario_world_def client_cache_get_def client_cache_purge_def)
    show "cache_lookup (t_clean (clock ?sur)) (audioCache ?w)
            (getCacheKey (lower_case ?sur) (truncate_text (sanitizeText (opt_text ?opts)))
               (chosen_voice ?opts (ui ?w)) (js ''simba-multilingual'')) = None"
      by (simp add: scenario_world_def cache_lookup_def cleanCache_def)
    show "vendor_failed (vendor ?sur)" by (simp add: scenario_surroundings_def vendor_failed_def)
    show "web_speaks ?sur" by (simp add: scenario_surroundings_def)
  qed
  then show ?thesis
    unfolding otext len using failed by (simp add: scenario_sub_def)
qed

text \<open>
  C1 as stated fails: the vendor answers 401, the handler answers 401, and the stored
  counter has gone from 0 to 5.
\<close>

theorem vendor_failure_is_billed:
  "response (serve ascii_lower scenario_env scenario_times (NotOk 401) POST (Some scenario_body)
      (scenario_db 0) []) =
     Failure 401 ''TTS authentication failed. Please check API key.'' \<and>
   stored_usage (scenario_db 0) ''stu-1'' = Some 0 \<and>
   stored_usage (db_after (serve ascii_lower scenario_env scenario_times (NotOk 401) POST
      (Some scenario_body) (scenario_db 0) [])) ''stu-1'' = Some 5"
proof -
  have q: "qualifies (scenario_sub 0) (t_usage scenario_times)
             (int (length (truncate_text (sanitizeText (js ''Hello'')))))"
    unfolding scenario_length by (simp add: scenario_qualifies scenario_times_def)
  have served: "serve ascii_lower scenario_env scenario_times (NotOk 401) POST (Some scenario_body)
      (scenario_db 0) [] =
     synthesize ascii_lower scenario_times (NotOk 401) (truncate_text (sanitizeText (js ''Hello'')))
       (voice_of scenario_body) (language_of scenario_body)
       (Some \<lparr>info_plan = Pro, ttsUsed = tts_used (scenario_sub 0) + 5,
          ttsLimit = tts_limit (scenario_sub 0),
          ttsRemaining = tts_limit (scenario_sub 0) - (tts_used (scenario_sub 0) + 5),
          canUsePremium = (tts_used (scenario_sub 0) + 5 < tts_limit (scenario_sub 0))\<rparr>)
       (set_tts_used (scenario_db 0) (sub_id (scenario_sub 0)) (tts_used (scenario_sub 0) + 5))
       []"
    using serve_tracked [where e = scenario_env and b = scenario_body
        and sid = "''stu-1''" and d = "scenario_db 0" and sub = "scenario_sub 0"
        and t = scenario_times and lower = ascii_lower and v = "NotOk 401" and cache = "[]",
        OF _ _ _ _ scenario_speakable _ _ scenario_select q]
    unfolding scenario_length
    by (simp add: scenario_env_def scenario_body_def scenario_db_def)
  show ?thesis
    unfolding served
    using stored_usage_update [OF scenario_select [of 0], of 5]
      stored_usage_select [OF scenario_select [of 0]]
    by (simp add: synthesize_def Let_def cache_lookup_def cleanCache_def scenario_sub_def)
qed

section \<open>Properties of the client hook\<close>

lemma route_basic: "info_plan u = Basic \<Longrightarrow> route student (Some u) n = (False, False)"
  by (simp add: route_def)

lemma speakWeb_keeps:
  "store (snd (speakWeb env options w)) = store w \<and>
   vendor_log (snd (speakWeb env options w)) = vendor_log w \<and>
   audioCache (snd (speakWeb env options w)) = audioCache w"
  by (simp add: speakWeb_def)

text \<open>
  C5. When the resolved plan is Basic, the routing decision is the Web backend for every
  text length and \<open>speak\<close> never calls the Premium backend: no request reaches the edge
  function, the store and the vendor log stay as they were, and every text that is
  spoken at all (every text that is not blank) goes to the Web backend.
\<close>

theorem speak_basic_never_premium:
  assumes "state_usageInfo (ui w) = Some u" and "info_plan u = Basic"
  shows "fst (route student (state_usageInfo (ui w)) n) = False \<and>
         Premium \<notin> set (fst (speak env student options w)) \<and>
         (trim (opt_text options) \<noteq> [] \<longrightarrow> fst (speak env student options w) = [Web]) \<and>
         store (snd (speak env student options w)) = store w \<and>
         vendor_log (snd (speak env student options w)) = vendor_log w"
proof (cases "opt_text options = [] \<or> trim (opt_text options) = []")
  case True
  then have "speak env student options w = ([], w)"
    by (auto simp: speak_def Let_def)
  with True assms show ?thesis by (auto simp: trim_Nil route_basic)
next
  case False
  let ?w2 = "w\<lparr>ui := (ui w)\<lparr>isSpeaking := False, isLoading := True, tts_error := None\<rparr>\<rparr>"
  have rt: "route student (state_usageInfo (ui w)) (int (length (opt_text options))) =
              (False, False)"
    using assms by (simp add: route_basic)
  obtain ok w3 where web: "speakWeb env options ?w2 = (ok, w3)"
    by (cases "speakWeb env options ?w2")
  with speakWeb_keeps [of env options ?w2]
  have keep: "store w3 = store w" "vendor_log w3 = vendor_log w" by simp_all
  have "fst (speak env student options w) = [Web] \<and>
        store (snd (speak env student options w)) = store w \<and>
        vendor_log (snd (speak env student options w)) = vendor_log w"
    using False rt web keep by (cases ok) (simp_all add: speak_def Let_def)
  with assms show ?thesis by (simp add: route_basic)
qed

text \<open>Scenario A: a Basic student asks for \<open>Hello world\<close>.\<close>

theorem speak_basic_never_premium_witness:
  "fst (speak (scenario_surroundings (Ok200 (Some (js ''QUJD'')))) (Some ''stu-1'')
         (scenario_options ''Hello world'') (scenario_world (Some default_usage))) = [Web] \<and>
   stored_usage (store (snd (speak (scenario_surroundings (Ok200 (Some (js ''QUJD''))))
         (Some ''stu-1'') (scenario_options ''Hello world'')
         (scenario_world (Some default_usage))))) ''stu-1'' = Some 0"
proof -
  have "state_usageInfo (ui (scenario_world (Some default_usage))) = Some default_usage"
    by (simp add: scenario_world_def scenario_state_def)
  moreover have "info_plan default_usage = Basic"
    by (simp add: default_usage_def)
  moreover have "trim (opt_text (scenario_options ''Hello world'')) \<noteq> []"
    by (simp add: scenario_options_def eval_text)
  moreover have "stored_usage (store (scenario_world (Some default_usage))) ''stu-1'' = Some 0"
    using stored_usage_select [OF scenario_world_select] by (simp add: scenario_sub_def)
  ultimately show ?thesis
    using speak_basic_never_premium [where w = "scenario_world (Some default_usage)"
        and u = default_usage and env = "scenario_surroundings (Ok200 (Some (js ''QUJD'')))"
        and student = "Some ''stu-1''" and options = "scenario_options ''Hello world''"
        and n = 11]
    by simp
qed

text \<open>The \<open>catch\<close> of \<open>fetchUsageInfo\<close> only logs: it leaves the state as it was.\<close>

lemma fetchUsageInfo_catch: "fetchUsageInfo student FetchThrows now st = st"
  by (simp add: fetchUsageInfo_def)





section \<open>Properties of the audio caches\<close>

lemma cleanCache_age:
  "(key, e) \<in> set (cleanCache now cache) \<Longrightarrow>
     (key, e) \<in> set cache \<and> now - timestamp e \<le> CACHE_TTL_MS"
  by (auto simp: cleanCache_def)

lemma cache_lookup_age:
  assumes "cache_lookup now cache key = Some e"
  shows "(key, e) \<in> set cache \<and> now - timestamp e \<le> CACHE_TTL_MS"
proof -
  from assms have "(key, e) \<in> set (cleanCache now cache)"
    unfolding cache_lookup_def by (rule map_of_SomeD)
  then show ?thesis by (rule cleanCache_age)
qed

lemma synthesize_cached:
  assumes "response (synthesize lower t v txt voice lang info d cache) = Audio a True n i"
  shows "\<exists>e. cache_lookup (t_clean t) cache
               (getCacheKey lower txt voice (js ''simba-multilingual'')) = Some e \<and> audio e = a"
  using assms
  by (auto simp: synthesize_def Let_def split: option.splits vendor_reply.splits if_splits)

lemma map_of_map_set: "map_of (map_set m k v) k = Some v"
  by (induction m) auto

lemma map_of_map_delete_other: "k' \<noteq> k \<Longrightarrow> map_of (map_delete m k') k = map_of m k"
  by (induction m) (auto simp: map_delete_def)

lemma client_cache_put_get:
  assumes "v \<noteq> []" and "\<not> js_includes v (js ''audio_data'')"
  shows "client_cache_get (client_cache_put c k v) k = Some v"
  using assms
  by (simp add: client_cache_get_def client_cache_purge_def client_cache_put_def Let_def
      map_of_map_set)

text \<open>
  C7, as amended. The server-side lookup sweeps first, so an entry it returns is at most
  \<open>CACHE_TTL_MS\<close> old, and audio that the handler serves as cached comes from such an
  entry. The client-side cache has no sweep: what was put under a key is what a later
  lookup of the key returns.
\<close>

theorem server_cache_hit_within_ttl:
  "(cache_lookup now cache key = Some e \<longrightarrow>
      (key, e) \<in> set cache \<and> now - timestamp e \<le> CACHE_TTL_MS) \<and>
   (response (synthesize lower t v txt voice lang info d cache) = Audio a True n i \<longrightarrow>
      (\<exists>k e. (k, e) \<in> set cache \<and> audio e = a \<and> t_clean t - timestamp e \<le> CACHE_TTL_MS)) \<and>
   (u \<noteq> [] \<and> \<not> js_includes u (js ''audio_data'') \<longrightarrow>
      client_cache_get (client_cache_put c ck u) ck = Some u)"
proof (intro conjI impI)
  assume "cache_lookup now cache key = Some e"
  then show "(key, e) \<in> set cache" and "now - timestamp e \<le> CACHE_TTL_MS"
    using cache_lookup_age by simp_all
next
  assume "response (synthesize lower t v txt voice lang info d cache) = Audio a True n i"
  then obtain e' where "cache_lookup (t_clean t) cache
      (getCacheKey lower txt voice (js ''simba-multilingual'')) = Some e'" and "audio e' = a"
    using synthesize_cached by blast
  with cache_lookup_age [of "t_clean t" cache _ e']
  show "\<exists>k e. (k, e) \<in> set cache \<and> audio e = a \<and> t_clean t - timestamp e \<le> CACHE_TTL_MS"
    by blast
next
  assume "u \<noteq> [] \<and> \<not> js_includes u (js ''audio_data'')"
  then show "client_cache_get (client_cache_put c ck u) ck = Some u"
    by (simp add: client_cache_put_get)
qed

lemma world_after_hello_eval:
  "world_after_hello =
     \<lparr>ui = \<lparr>isSpeaking = False, isLoading = False, tts_error = None,
             currentVoiceId = js ''henry'',
             state_usageInfo = Some (scenario_pro_info\<lparr>ttsUsed := 5, ttsRemaining := 149995\<rparr>)\<rparr>,
      clientAudioCache = [(js ''henry:Hello'', js ''data:audio/mp3;base64,QUJD'')],
      store = scenario_db 5,
      audioCache = [(js ''simba-multilingual:henry:hello'', \<lparr>audio = js ''QUJD'', timestamp = 2000\<rparr>)],
      vendor_log = [\<lparr>input = js ''Hello'', voice_id = js ''henry'',
                      model = js ''simba-multilingual'', req_language = js ''en-IN''\<rparr>]\<rparr>"
  by (simp add: world_after_hello_def speak_def speakPremium_def speakWeb_def route_def
      scenario_world_def scenario_state_def scenario_pro_info_def scenario_options_def
      scenario_surroundings_def scenario_env_def scenario_times_def scenario_db_def
      scenario_sub_def serve_def synthesize_def checkAndTrackUsage_def usage_decide_def
      select_subscription_def maybeSingle_def update_tts_used_def store_write_def set_tts_used_def
      ascii_lower_def isExpired_def
      chosen_voice_def chosen_language_def premium_body_def voice_of_def language_of_def
      client_cache_key_def client_cache_get_def client_cache_purge_def client_cache_put_def
      cache_lookup_def cleanCache_def cache_store_def getCacheKey_def containsHindi_def
      eval_text Let_def)

text \<open>An entry of age 1000 ms on the server, and a put followed by a get on the client.\<close>

theorem server_cache_hit_within_ttl_witness:
  "cache_lookup 1000 scenario_cache (js ''simba-multilingual:henry:hello'') =
     Some \<lparr>audio = js ''QUJD'', timestamp = 0\<rparr> \<and>
   1000 - timestamp \<lparr>audio = js ''QUJD'', timestamp = 0\<rparr> \<le> CACHE_TTL_MS \<and>
   response (synthesize ascii_lower scenario_times VendorRejected (js ''Hello'') (js ''henry'')
      (js ''en-IN'') None (scenario_db 0) scenario_cache) = Audio (js ''QUJD'') True 5 None \<and>
   client_cache_get (client_cache_put [] (js ''henry:Hello'') (js ''data:audio/mp3;base64,QUJD''))
      (js ''henry:Hello'') = Some (js ''data:audio/mp3;base64,QUJD'')"
proof -
  have hit: "cache_lookup 1000 scenario_cache (js ''simba-multilingual:henry:hello'') =
               Some \<lparr>audio = js ''QUJD'', timestamp = 0\<rparr>"
    by (simp add: cache_lookup_def cleanCache_def scenario_cache_def CACHE_TTL_MS_def)
  have served: "response (synthesize ascii_lower scenario_times VendorRejected (js ''Hello'') (js ''henry'')
      (js ''en-IN'') None (scenario_db 0) scenario_cache) = Audio (js ''QUJD'') True 5 None"
  proof -
    have "cache_lookup (t_clean scenario_times) scenario_cache
            (getCacheKey ascii_lower (js ''Hello'') (js ''henry'') (js ''simba-multilingual'')) =
          Some \<lparr>audio = js ''QUJD'', timestamp = 0\<rparr>"
      unfolding scenario_key using hit by (simp add: scenario_times_def)
    from synthesize_hit [OF this] show ?thesis by (simp add: js_def)
  qed
  have url: "js ''data:audio/mp3;base64,QUJD'' \<noteq> [] \<and>
             \<not> js_includes (js ''data:audio/mp3;base64,QUJD'') (js ''audio_data'')"
    by (simp add: js_def)
  show ?thesis
    using server_cache_hit_within_ttl [of 1000 scenario_cache "js ''simba-multilingual:henry:hello''"
        "\<lparr>audio = js ''QUJD'', timestamp = 0\<rparr>" ascii_lower scenario_times VendorRejected "js ''Hello''"
        "js ''henry''" "js ''en-IN''" None "scenario_db 0" "js ''QUJD''" 5 None
        "js ''data:audio/mp3;base64,QUJD''" "[]" "js ''henry:Hello''"]
      hit served url
    by simp
qed

text \<open>
  C7 as stated fails for the client-side cache: audio cached during a call whose server
  entry has timestamp 2000 is played again by a call made after the TTL has passed, when
  the server-side lookup no longer finds its entry; no request is sent.
\<close>

theorem client_cache_hit_after_ttl:
  "map_of (audioCache world_after_hello) (js ''simba-multilingual:henry:hello'') =
     Some \<lparr>audio = js ''QUJD'', timestamp = 2000\<rparr> \<and>
   t_clean late_times - 2000 > CACHE_TTL_MS \<and>
   cache_lookup (t_clean late_times) (audioCache world_after_hello)
     (js ''simba-multilingual:henry:hello'') = None \<and>
   client_cache_get (clientAudioCache world_after_hello) (js ''henry:Hello'') =
     Some (js ''data:audio/mp3;base64,QUJD'') \<and>
   fst (speak late_surroundings (Some ''stu-1'') (scenario_options ''Hello'') world_after_hello) =
     [Premium] \<and>
   vendor_log (snd (speak late_surroundings (Some ''stu-1'') (scenario_options ''Hello'')
     world_after_hello)) = vendor_log world_after_hello"
  unfolding world_after_hello_eval
  by (simp add: late_times_def late_surroundings_def CACHE_TTL_MS_def cache_lookup_def
      cleanCache_def client_cache_get_def client_cache_purge_def speak_def speakPremium_def
      route_def scenario_pro_info_def scenario_options_def scenario_surroundings_def
      chosen_voice_def client_cache_key_def eval_text Let_def)

section \<open>Properties of approve_request\<close>

lemma setDate_plus_eq: "setDate_plus n t = t + n * msPerDay"
proof -
  have "t = t div msPerDay * msPerDay + t mod msPerDay" by simp
  then show ?thesis
    unfolding setDate_plus_def by (simp add: algebra_simps)
qed

lemma data_of_maybeSingle:
  "data_of (maybeSingle c rows) = Some r \<longleftrightarrow> c = Up \<and> rows = [r]"
  by (auto simp: data_of_def maybeSingle_def split: condition.splits list.splits)

lemma approve_request_success:
  assumes "http_status (fst (approve_request t body d)) = 200" and "write_condition d = Up"
  shows "\<exists>school rid request.
           requestId body = Some rid \<and>
           filter (\<lambda>r. req_id r = rid) (upgrade_requests d) = [request] \<and>
           status request = Pending \<and>
           snd (approve_request t body d) =
             d\<lparr>upgrade_requests :=
                  map (\<lambda>r. if req_id r = rid
                            then r\<lparr>status := Approved, processed_at := Some (t_processed t),
                                   processed_by := Some school\<rparr>
                            else r) (upgrade_requests d),
                subscriptions :=
                  map (\<lambda>r. if student_id r = req_student_id request
                            then r\<lparr>plan := Pro, start_date := t_start t,
                                   end_date := Some (setDate_plus 30 (t_end t)), tts_used := 0,
                                   is_active := True\<rparr>
                            else r) (subscriptions d)\<rparr>"
proof -
  from assms obtain tok school rid where
    body: "sessionToken body = Some tok" "schoolUuid body = Some school" "requestId body = Some rid"
    and ok: "truthy (sessionToken body)" "truthy (schoolUuid body)" "truthy (requestId body)"
    by (auto simp: approve_request_def server_error_def truthy_def split: if_splits option.splits)
  from assms body ok obtain uuid where
    v: "validateSchoolSession d (t_session t) tok (Some school) = Valid uuid"
    by (cases "validateSchoolSession d (t_session t) tok (Some school)")
       (simp_all add: approve_request_def server_error_def)
  from assms body ok v obtain request where
    rq: "data_of (maybeSingle (condition d) (filter (\<lambda>r. req_id r = rid) (upgrade_requests d))) =
           Some request"
    by (cases "data_of (maybeSingle (condition d)
                 (filter (\<lambda>r. req_id r = rid) (upgrade_requests d)))")
       (simp_all add: approve_request_def server_error_def)
  from assms body ok v rq have pending: "status request = Pending"
    by (simp add: approve_request_def server_error_def split: if_splits)
  from assms body ok v rq pending obtain stu where
    st: "data_of (maybeSingle (condition d)
           (filter (\<lambda>r. stu_id r = req_student_id request) (students d))) = Some stu"
    by (cases "data_of (maybeSingle (condition d)
                 (filter (\<lambda>r. stu_id r = req_student_id request) (students d)))")
       (simp_all add: approve_request_def server_error_def)
  from assms body ok v rq pending st have school: "school_id stu = school"
    by (simp add: approve_request_def server_error_def split: if_splits)
  from rq have one: "filter (\<lambda>r. req_id r = rid) (upgrade_requests d) = [request]"
    by (simp add: data_of_maybeSingle)
  have "snd (approve_request t body d) =
          d\<lparr>upgrade_requests :=
               map (\<lambda>r. if req_id r = rid
                         then r\<lparr>status := Approved, processed_at := Some (t_processed t),
                                processed_by := Some school\<rparr>
                         else r) (upgrade_requests d),
             subscriptions :=
               map (\<lambda>r. if student_id r = req_student_id request
                         then r\<lparr>plan := Pro, start_date := t_start t,
                                end_date := Some (setDate_plus 30 (t_end t)), tts_used := 0,
                                is_active := True\<rparr>
                         else r) (subscriptions d)\<rparr>"
    using body ok v rq pending st school assms(2)
    by (simp add: approve_request_def server_error_def store_write_def mark_approved_def activate_pro_def)
  with body(3) one pending show ?thesis by blast
qed

text \<open>
  When \<open>approve_request\<close> answers 200 and the store has written, the request was pending
  and every subscription row of its student is Pro and active with \<open>tts_used\<close> 0, and its
  \<open>end_date\<close> is the instant at which the handler builds \<open>endDate\<close> plus exactly 30 days.
\<close>

lemma approve_request_when_written:
  assumes "http_status (fst (approve_request t body d)) = 200" and "write_condition d = Up"
  shows "\<exists>rid request.
           requestId body = Some rid \<and>
           filter (\<lambda>r. req_id r = rid) (upgrade_requests d) = [request] \<and>
           status request = Pending \<and>
           (\<forall>s \<in> set (subscriptions d). student_id s = req_student_id request \<longrightarrow>
              s\<lparr>plan := Pro, start_date := t_start t,
                end_date := Some (t_end t + 30 * 24 * 60 * 60 * 1000), tts_used := 0,
                is_active := True\<rparr> \<in> set (subscriptions (snd (approve_request t body d)))) \<and>
           (\<forall>s' \<in> set (subscriptions (snd (approve_request t body d))).
              student_id s' = req_student_id request \<longrightarrow>
                plan s' = Pro \<and> tts_used s' = 0 \<and> is_active s' \<and>
                end_date s' = Some (t_end t + 30 * 24 * 60 * 60 * 1000))"
proof -
  from approve_request_success [OF assms] obtain rid request where
    rid: "requestId body = Some rid"
    and one: "filter (\<lambda>r. req_id r = rid) (upgrade_requests d) = [request]"
    and pending: "status request = Pending"
    and d': "subscriptions (snd (approve_request t body d)) =
               map (\<lambda>r. if student_id r = req_student_id request
                         then r\<lparr>plan := Pro, start_date := t_start t,
                                end_date := Some (setDate_plus 30 (t_end t)), tts_used := 0,
                                is_active := True\<rparr>
                         else r) (subscriptions d)"
    by auto
  have days: "setDate_plus 30 (t_end t) = t_end t + 30 * 24 * 60 * 60 * 1000"
    by (simp add: setDate_plus_eq msPerDay_def)
  have old: "\<forall>s \<in> set (subscriptions d). student_id s = req_student_id request \<longrightarrow>
              s\<lparr>plan := Pro, start_date := t_start t,
                end_date := Some (t_end t + 30 * 24 * 60 * 60 * 1000), tts_used := 0,
                is_active := True\<rparr> \<in> set (subscriptions (snd (approve_request t body d)))"
    unfolding d' days by force
  have new: "\<forall>s' \<in> set (subscriptions (snd (approve_request t body d))).
              student_id s' = req_student_id request \<longrightarrow>
                plan s' = Pro \<and> tts_used s' = 0 \<and> is_active s' \<and>
                end_date s' = Some (t_end t + 30 * 24 * 60 * 60 * 1000)"
    unfolding d' days by auto
  from rid one pending old new show ?thesis by blast
qed

lemmas eval_approval = approve_request_def approval_clock_def approval_body_def approval_db_def
  approval_db_no_row_def truthy_def validateSchoolSession_def maybeSingle_def data_of_def
  store_write_def mark_approved_def activate_pro_def setDate_plus_def msPerDay_def
  server_error_def

text \<open>
  A Basic student with 1234 characters used, whose row the store holds and writes, is
  approved at clock reading 5002.
\<close>

lemma approve_request_row_written:
  "approve_request approval_clock approval_body approval_db =
     (\<lparr>http_status = 200, success = True, message = ''Pro plan activated for 30 days''\<rparr>,
      approval_db
        \<lparr>subscriptions :=
           [\<lparr>sub_id = ''sub-1'', student_id = ''stu-1'', plan = Pro, start_date = 5003,
             end_date = Some (5002 + 2592000000), tts_used = 0, tts_limit = 150000,
             is_active = True\<rparr>],
         upgrade_requests :=
           [\<lparr>req_id = ''req-1'', req_student_id = ''stu-1'', status = Approved,
             processed_at = Some 5001, processed_by = Some ''school-1'',
             rejection_reason = None\<rparr>]\<rparr>)"
  by (simp add: eval_approval)

text \<open>The same approval when the store answers both updates with an error value.\<close>

lemma approve_request_not_written:
  "approve_request approval_clock approval_body (approval_db\<lparr>write_condition := Failing\<rparr>) =
     (\<lparr>http_status = 200, success = True, message = ''Pro plan activated for 30 days''\<rparr>,
      approval_db\<lparr>write_condition := Failing\<rparr>)"
  by (simp add: eval_approval)

text \<open>
  C8 fails on the code for a student who has no row in \<open>subscriptions\<close>. The update of
  \<open>approve_request\<close> matches no row and inserts none, and the handler does not read its
  result: the pending request of such a student is marked approved and answered with 200
  and \<open>Pro plan activated for 30 days\<close>, and the student has no subscription afterwards
  either, so no plan is Pro, no counter is 0 and no end date is set.
\<close>

theorem approve_request_without_row:
  "fst (approve_request approval_clock approval_body approval_db_no_row) =
     \<lparr>http_status = 200, success = True, message = ''Pro plan activated for 30 days''\<rparr> \<and>
   map status (upgrade_requests (snd (approve_request approval_clock approval_body
     approval_db_no_row))) = [Approved] \<and>
   select_subscription approval_db_no_row ''stu-1'' = Data None \<and>
   select_subscription (snd (approve_request approval_clock approval_body approval_db_no_row))
     ''stu-1'' = Data None \<and>
   subscriptions (snd (approve_request approval_clock approval_body approval_db_no_row)) = []"
  by (simp add: eval_approval select_subscription_def)

text \<open>After that approval the student has no stored counter and no plan to read.\<close>

theorem approve_request_without_row_witness:
  "http_status (fst (approve_request approval_clock approval_body approval_db_no_row)) = 200 \<and>
   stored_usage (snd (approve_request approval_clock approval_body approval_db_no_row))
     ''stu-1'' = None \<and>
   map plan (subscriptions (snd (approve_request approval_clock approval_body
     approval_db_no_row))) = []"
  using approve_request_without_row by (simp add: stored_usage_def)

section \<open>Properties of two calls in flight\<close>

lemma run_alone:
  "run [First, First] sid (Waiting now n, b, d) =
     (Finished (fst (checkAndTrackUsage d now sid n)), b, snd (checkAndTrackUsage d now sid n))"
  by (simp add: call_step_def checkAndTrackUsage_def split: decision.splits prod.splits)

lemma run_sequential:
  "run [First, First, Second, Second] sid (Waiting now1 n1, Waiting now2 n2, d) =
     (Finished (fst (checkAndTrackUsage d now1 sid n1)),
      Finished (fst (checkAndTrackUsage (snd (checkAndTrackUsage d now1 sid n1)) now2 sid n2)),
      snd (checkAndTrackUsage (snd (checkAndTrackUsage d now1 sid n1)) now2 sid n2))"
  by (simp add: call_step_def checkAndTrackUsage_def split: decision.splits prod.splits)

lemma select_after_update:
  assumes "select_subscription d sid = Data (Some sub)"
  shows "select_subscription (set_tts_used d (sub_id sub) v) sid =
           Data (Some (sub\<lparr>tts_used := v\<rparr>))"
  using assms
  by (simp add: select_subscription_Some set_tts_used_def filter_student_update)

lemma write_condition_set_tts_used [simp]:
  "write_condition (set_tts_used d i v) = write_condition d"
  by (simp add: set_tts_used_def)

text \<open>
  C4, as amended. The check and the increment are two store calls of the caller, a select
  and an update. When two calls for a student do not interleave and the store writes
  their updates, both are granted only if both lengths fit, one after the other, into the
  quota: the stored counter then holds both increments.
\<close>

theorem sequential_calls_respect_quota:
  assumes "run [First, First, Second, Second] sid (Waiting now1 n1, Waiting now2 n2, d) =
             (a, b, d')"
    and "granted a" and "granted b"
    and "write_condition d = Up"
  shows "\<exists>sub. select_subscription d sid = Data (Some sub) \<and>
           tts_used sub + n1 + n2 \<le> tts_limit sub \<and>
           stored_usage d' sid = Some (tts_used sub + n1 + n2)"
proof -
  let ?d1 = "snd (checkAndTrackUsage d now1 sid n1)"
  from assms(1) have a: "a = Finished (fst (checkAndTrackUsage d now1 sid n1))"
    and b: "b = Finished (fst (checkAndTrackUsage ?d1 now2 sid n2))"
    and d': "d' = snd (checkAndTrackUsage ?d1 now2 sid n2)"
    unfolding run_sequential by simp_all
  from assms(2,3) have g1: "canUse (fst (checkAndTrackUsage d now1 sid n1))"
    and g2: "canUse (fst (checkAndTrackUsage ?d1 now2 sid n2))"
    unfolding a b by (simp_all add: granted_def)
  from checkAndTrackUsage_canUse [OF g1] assms(4) obtain sub where
    sub: "select_subscription d sid = Data (Some sub)"
    and d1: "?d1 = set_tts_used d (sub_id sub) (tts_used sub + n1)"
    by blast
  have sel: "select_subscription ?d1 sid = Data (Some (sub\<lparr>tts_used := tts_used sub + n1\<rparr>))"
    unfolding d1 using sub by (rule select_after_update)
  have up: "write_condition ?d1 = Up"
    unfolding d1 using assms(4) by simp
  from checkAndTrackUsage_canUse [OF g2] sel up
  have q: "qualifies (sub\<lparr>tts_used := tts_used sub + n1\<rparr>) now2 n2"
    and d2: "d' = set_tts_used ?d1 (sub_id sub) (tts_used sub + n1 + n2)"
    unfolding d' by auto
  from stored_usage_update [OF sel, of "tts_used sub + n1 + n2"] d2
  have "stored_usage d' sid = Some (tts_used sub + n1 + n2)" by simp
  with sub q show ?thesis by (auto simp: qualifies_def)
qed

lemmas eval_usage = call_step_def usage_decide_def select_subscription_def maybeSingle_def
  update_tts_used_def store_write_def set_tts_used_def isExpired_def scenario_db_def
  scenario_sub_def granted_def stored_usage_def

text \<open>Texts of 5 and 7 characters, one call after the other, from usage 0.\<close>

theorem sequential_calls_respect_quota_witness:
  "granted (fst (run [First, First, Second, Second] ''stu-1''
      (Waiting 1000 5, Waiting 1001 7, scenario_db 0))) \<and>
   granted (fst (snd (run [First, First, Second, Second] ''stu-1''
      (Waiting 1000 5, Waiting 1001 7, scenario_db 0)))) \<and>
   stored_usage (snd (snd (run [First, First, Second, Second] ''stu-1''
      (Waiting 1000 5, Waiting 1001 7, scenario_db 0)))) ''stu-1'' = Some 12"
proof -
  let ?s = "run [First, First, Second, Second] ''stu-1''
              (Waiting 1000 5, Waiting 1001 7, scenario_db 0)"
  have ga: "granted (fst ?s)" by (simp add: eval_usage)
  have gb: "granted (fst (snd ?s))" by (simp add: eval_usage)
  have up: "write_condition (scenario_db 0) = Up" by (simp add: scenario_db_def)
  have "?s = (fst ?s, fst (snd ?s), snd (snd ?s))" by simp
  from sequential_calls_respect_quota [OF this ga gb up] obtain sub where
    "select_subscription (scenario_db 0) ''stu-1'' = Data (Some sub)"
    and "stored_usage (snd (snd ?s)) ''stu-1'' = Some (tts_used sub + 5 + 7)"
    by blast
  with scenario_select [of 0] have "stored_usage (snd (snd ?s)) ''stu-1'' = Some 12"
    by (simp add: scenario_sub_def)
  with ga gb show ?thesis by simp
qed

text \<open>
  C4 as stated fails: with 5 characters left and two calls of 5 characters each, a
  schedule in which both calls select before either updates grants both; the second
  update overwrites the first and the stored counter shows one increment.
\<close>

theorem interleaved_calls_both_granted:
  "stored_usage (scenario_db 149995) ''stu-1'' = Some 149995 \<and>
   granted (fst (run [First, Second, First, Second] ''stu-1''
      (Waiting 1000 5, Waiting 1000 5, scenario_db 149995))) \<and>
   granted (fst (snd (run [First, Second, First, Second] ''stu-1''
      (Waiting 1000 5, Waiting 1000 5, scenario_db 149995)))) \<and>
   stored_usage (snd (snd (run [First, Second, First, Second] ''stu-1''
      (Waiting 1000 5, Waiting 1000 5, scenario_db 149995)))) ''stu-1'' = Some 150000"
  by (simp add: eval_usage)

section \<open>Properties of sanitizeText\<close>

lemma sanitizeText_ranges:
  "sanitizeText s = strip_markdown (remove_all server_ranges s)"
  by (simp add: sanitizeText_def remove_all_def server_ranges_def)

lemma sanitizeText_client_ranges:
  "sanitizeText_client s = strip_markdown (remove_all client_ranges s)"
  by (simp add: sanitizeText_client_def remove_all_def client_ranges_def)

lemma remove_all_Cons:
  "remove_all ((lo, hi) # rs) s = remove_all rs (remove_range lo hi s)"
  by (simp add: remove_all_def)

lemma remove_all_Nil: "remove_all [] s = s"
  by (simp add: remove_all_def)

lemma free_of_Cons:
  "\<not> is_high u \<Longrightarrow>
     free_of lo hi (u # s) \<longleftrightarrow> \<not> is_low u \<and> \<not> (lo \<le> u \<and> u \<le> hi) \<and> free_of lo hi s"
  by (cases s) auto

lemma well_formed_Cons:
  "\<not> is_high u \<Longrightarrow> well_formed (u # s) \<longleftrightarrow> \<not> is_low u \<and> well_formed s"
  by (cases s) auto

lemma well_formed_remove_range:
  "well_formed s \<Longrightarrow> well_formed (remove_range lo hi s)"
  by (induction lo hi s rule: remove_range.induct)
     (auto simp: well_formed_Cons split: if_splits)

lemma free_of_remove_range_same:
  "well_formed s \<Longrightarrow> free_of lo hi (remove_range lo hi s)"
  by (induction lo hi s rule: remove_range.induct)
     (auto simp: free_of_Cons split: if_splits)

lemma free_of_remove_range_other:
  "free_of lo' hi' s \<Longrightarrow> free_of lo' hi' (remove_range lo hi s)"
  by (induction lo hi s rule: remove_range.induct)
     (auto simp: free_of_Cons split: if_splits)

lemma remove_range_free_of:
  "free_of lo hi s \<Longrightarrow> remove_range lo hi s = s"
  by (induction lo hi s rule: remove_range.induct) (auto split: if_splits)

lemma set_remove_range: "set (remove_range lo hi s) \<subseteq> set s"
  by (induction lo hi s rule: remove_range.induct) auto

lemma well_formed_remove_all: "well_formed s \<Longrightarrow> well_formed (remove_all rs s)"
  by (induction rs arbitrary: s) (auto simp: remove_all_Nil remove_all_Cons well_formed_remove_range)

lemma free_of_remove_all_other: "free_of lo hi s \<Longrightarrow> free_of lo hi (remove_all rs s)"
  by (induction rs arbitrary: s)
     (auto simp: remove_all_Nil remove_all_Cons free_of_remove_range_other)

lemma free_of_remove_all:
  "well_formed s \<Longrightarrow> (lo, hi) \<in> set rs \<Longrightarrow> free_of lo hi (remove_all rs s)"
proof (induction rs arbitrary: s)
  case Nil
  then show ?case by simp
next
  case (Cons r rs)
  obtain l h where r: "r = (l, h)" by (cases r)
  show ?case
  proof (cases "(lo, hi) = r")
    case True
    with r Cons.prems(1) show ?thesis
      by (auto simp: remove_all_Cons free_of_remove_range_same free_of_remove_all_other)
  next
    case False
    with Cons.prems(2) have "(lo, hi) \<in> set rs" by simp
    with Cons.IH [of "remove_range l h s"] Cons.prems(1) r show ?thesis
      by (simp add: remove_all_Cons well_formed_remove_range)
  qed
qed

lemma remove_all_free:
  "(\<And>lo hi. (lo, hi) \<in> set rs \<Longrightarrow> free_of lo hi s) \<Longrightarrow> remove_all rs s = s"
  by (induction rs) (auto simp: remove_all_Nil remove_all_Cons remove_range_free_of)

lemma set_remove_all: "set (remove_all rs s) \<subseteq> set s"
proof (induction rs arbitrary: s)
  case Nil
  then show ?case by (simp add: remove_all_Nil)
next
  case (Cons r rs)
  obtain l h where r: "r = (l, h)" by (cases r)
  from Cons [of "remove_range l h s"] set_remove_range [of l h s] show ?case
    unfolding r remove_all_Cons by blast
qed

lemma strip_delim_absent: "d \<noteq> [] \<Longrightarrow> hd d \<notin> set s \<Longrightarrow> strip_delim d s = s"
proof (induction s)
  case Nil
  then show ?case by simp
next
  case (Cons c cs)
  from Cons.prems have "take (length d) (c # cs) \<noteq> d"
    by (cases d) auto
  with Cons show ?case by simp
qed

lemma strip_heading_absent: "HASH \<notin> set s \<Longrightarrow> strip_heading s = s"
  by (induction s) auto

lemma space_not_surrogate: "is_space u \<Longrightarrow> \<not> is_high u \<and> \<not> is_low u"
  by (auto simp: is_space_def is_high_def is_low_def)

lemma free_of_dropWhile_space:
  "free_of lo hi s \<Longrightarrow> free_of lo hi (dropWhile is_space s)"
  by (induction s) (auto simp: free_of_Cons space_not_surrogate)

lemma LF_space: "is_space LF"
  by (simp add: is_space_def)

lemma free_of_dropWhile_LF:
  "free_of lo hi s \<Longrightarrow> free_of lo hi (dropWhile (\<lambda>x. x = LF) s)"
  using space_not_surrogate [OF LF_space]
  by (induction s) (auto simp: free_of_Cons)

lemma free_of_plain:
  "\<not> is_high u \<Longrightarrow> \<not> is_low u \<Longrightarrow> \<not> (lo \<le> u \<and> u \<le> hi) \<Longrightarrow>
     free_of lo hi (u # s) = free_of lo hi s"
  by (simp add: free_of_Cons)

lemma plain_DOT: "\<not> is_high DOT" "\<not> is_low DOT" "\<not> is_high SPACE" "\<not> is_low SPACE"
  "\<not> is_high LF" "\<not> is_low LF"
  by (simp_all add: is_high_def is_low_def)

lemma free_of_replace_newlines:
  "free_of lo hi s \<Longrightarrow> DOT < lo \<Longrightarrow> free_of lo hi (replace_newlines s)"
proof (induction lo hi s rule: free_of.induct)
  case (1 lo hi)
  then show ?case by simp
next
  case (2 lo hi u)
  then show ?case by (auto simp: plain_DOT free_of_Cons)
next
  case (3 lo hi u v rest)
  show ?case
  proof (cases "is_high u \<and> is_low v")
    case True
    then have "u \<noteq> LF" "v \<noteq> LF" by (auto simp: is_high_def is_low_def)
    with True 3 show ?thesis by simp
  next
    case False
    with "3.prems" have u: "\<not> is_high u" "\<not> is_low u" "\<not> (lo \<le> u \<and> u \<le> hi)"
      and rest: "free_of lo hi (v # rest)" by auto
    from "3.IH"(2) [OF False rest "3.prems"(2)]
    have ih: "free_of lo hi (replace_newlines (v # rest))" .
    have dot: "\<not> (lo \<le> DOT \<and> DOT \<le> hi)" "\<not> (lo \<le> SPACE \<and> SPACE \<le> hi)"
      using "3.prems"(2) by auto
    show ?thesis
    proof (cases "u = LF")
      case uLF: True
      have "free_of lo hi (replace_newlines (dropWhile (\<lambda>x. x = LF) (v # rest)))"
      proof (cases "v = LF")
        case True
        with ih dot show ?thesis by (simp add: free_of_plain plain_DOT)
      next
        case False
        with ih show ?thesis by simp
      qed
      with uLF dot show ?thesis by (simp add: free_of_plain plain_DOT)
    next
      case False
      with u ih show ?thesis by (simp add: free_of_plain)
    qed
  qed
qed

lemma free_of_collapse_spaces:
  "free_of lo hi s \<Longrightarrow> DOT < lo \<Longrightarrow> free_of lo hi (collapse_spaces s)"
proof (induction lo hi s rule: free_of.induct)
  case (1 lo hi)
  then show ?case by simp
next
  case (2 lo hi u)
  then show ?case by (auto simp: plain_DOT free_of_Cons)
next
  case (3 lo hi u v rest)
  show ?case
  proof (cases "is_high u \<and> is_low v")
    case True
    then have "\<not> is_space u" "\<not> is_space v" using space_not_surrogate by blast+
    with True 3 show ?thesis by simp
  next
    case False
    with "3.prems" have u: "\<not> is_high u" "\<not> is_low u" "\<not> (lo \<le> u \<and> u \<le> hi)"
      and rest: "free_of lo hi (v # rest)" by auto
    from "3.IH"(2) [OF False rest "3.prems"(2)]
    have ih: "free_of lo hi (collapse_spaces (v # rest))" .
    have dot: "\<not> (lo \<le> SPACE \<and> SPACE \<le> hi)"
      using "3.prems"(2) by auto
    show ?thesis
    proof (cases "is_space u")
      case uS: True
      have "free_of lo hi (collapse_spaces (dropWhile is_space (v # rest)))"
      proof (cases "is_space v")
        case True
        with ih dot show ?thesis by (simp add: free_of_plain plain_DOT)
      next
        case False
        with ih show ?thesis by simp
      qed
      with uS dot show ?thesis by (simp add: free_of_plain plain_DOT)
    next
      case False
      with u ih show ?thesis by (simp add: free_of_plain)
    qed
  qed
qed

lemma free_of_butlast:
  "free_of lo hi (s @ [c]) \<Longrightarrow> \<not> is_low c \<Longrightarrow> free_of lo hi s"
proof (induction lo hi s rule: free_of.induct)
  case (1 lo hi)
  then show ?case by simp
next
  case (2 lo hi u)
  then show ?case by (auto split: if_splits)
next
  case (3 lo hi u v rest)
  then show ?case by (auto split: if_splits)
qed

lemma rev_dropWhile_snoc:
  "rev (dropWhile P (rev (xs @ [x]))) = (if P x then rev (dropWhile P (rev xs)) else xs @ [x])"
  by simp

lemma free_of_drop_trailing:
  "free_of lo hi s \<Longrightarrow> free_of lo hi (rev (dropWhile is_space (rev s)))"
proof (induction s rule: rev_induct)
  case Nil
  then show ?case by simp
next
  case (snoc x xs)
  show ?case
  proof (cases "is_space x")
    case True
    with snoc.prems have "free_of lo hi xs"
      using free_of_butlast space_not_surrogate by blast
    with snoc.IH True show ?thesis by simp
  next
    case False
    with snoc.prems show ?thesis by simp
  qed
qed

lemma free_of_trim: "free_of lo hi s \<Longrightarrow> free_of lo hi (trim s)"
  unfolding trim_def by (intro free_of_drop_trailing free_of_dropWhile_space)

lemma set_replace_newlines: "set (replace_newlines s) \<subseteq> insert DOT (insert SPACE (set s))"
proof (induction s rule: replace_newlines.induct)
  case 1
  then show ?case by simp
next
  case (2 c cs)
  have "set (dropWhile (\<lambda>x. x = LF) cs) \<subseteq> set cs"
    by (auto dest: set_dropWhileD)
  with 2 show ?case by (auto split: if_splits)
qed

lemma set_collapse_spaces: "set (collapse_spaces s) \<subseteq> insert SPACE (set s)"
proof (induction s rule: collapse_spaces.induct)
  case 1
  then show ?case by simp
next
  case (2 c cs)
  have "set (dropWhile is_space cs) \<subseteq> set cs"
    by (auto dest: set_dropWhileD)
  with 2 show ?case by (auto split: if_splits)
qed

lemma set_trim: "set (trim s) \<subseteq> set s"
  by (auto simp: trim_def dest!: set_dropWhileD)

lemma spaced_Cons:
  "spaced (c # s) \<longleftrightarrow> (is_space c \<longrightarrow> c = SPACE \<and> (s = [] \<or> \<not> is_space (hd s))) \<and> spaced s"
  by (cases s) auto

lemma collapse_spaces_Nil_iff: "collapse_spaces s = [] \<longleftrightarrow> s = []"
  by (cases s) auto

lemma hd_collapse_spaces:
  "s \<noteq> [] \<Longrightarrow> \<not> is_space (hd s) \<Longrightarrow> hd (collapse_spaces s) = hd s"
  by (cases s) auto

lemma spaced_collapse_spaces: "spaced (collapse_spaces s)"
proof (induction s rule: collapse_spaces.induct)
  case 1
  then show ?case by simp
next
  case (2 c cs)
  show ?case
  proof (cases "is_space c")
    case True
    let ?r = "dropWhile is_space cs"
    have "collapse_spaces ?r = [] \<or> \<not> is_space (hd (collapse_spaces ?r))"
    proof (cases "?r = []")
      case True
      then have "collapse_spaces ?r = []" by (simp only: collapse_spaces.simps)
      then show ?thesis by (rule disjI1)
    next
      case False
      then have "\<not> is_space (hd ?r)" by (rule hd_dropWhile)
      with False show ?thesis by (simp add: hd_collapse_spaces)
    qed
    with True 2 show ?thesis by (simp add: spaced_Cons)
  next
    case False
    with 2 show ?thesis by (simp add: spaced_Cons)
  qed
qed

lemma collapse_spaces_spaced: "spaced s \<Longrightarrow> collapse_spaces s = s"
  by (induction s rule: spaced.induct) auto

lemma spaced_no_LF: "spaced s \<Longrightarrow> LF \<notin> set s"
  by (induction s rule: spaced.induct) (auto simp: LF_space)

lemma replace_newlines_no_LF: "LF \<notin> set s \<Longrightarrow> replace_newlines s = s"
  by (induction s) auto

lemma spaced_dropWhile: "spaced s \<Longrightarrow> spaced (dropWhile P s)"
  by (induction s) (auto simp: spaced_Cons)

lemma spaced_butlast: "spaced (s @ [x]) \<Longrightarrow> spaced s"
  by (induction s rule: spaced.induct) auto

lemma spaced_drop_trailing: "spaced s \<Longrightarrow> spaced (rev (dropWhile P (rev s)))"
proof (induction s rule: rev_induct)
  case Nil
  then show ?case by simp
next
  case (snoc x xs)
  from snoc.prems have "spaced xs" by (rule spaced_butlast)
  with snoc show ?case by simp
qed

lemma spaced_trim: "spaced s \<Longrightarrow> spaced (trim s)"
  unfolding trim_def by (intro spaced_drop_trailing spaced_dropWhile)

lemma hd_drop_trailing:
  "s = [] \<or> \<not> P (hd s) \<Longrightarrow>
     rev (dropWhile P (rev s)) = [] \<or> \<not> P (hd (rev (dropWhile P (rev s))))"
proof (induction s rule: rev_induct)
  case Nil
  then show ?case by simp
next
  case (snoc x xs)
  then show ?case by (cases xs) (auto split: if_splits)
qed

lemma trim_idem: "trim (trim s) = trim s"
proof -
  let ?a = "dropWhile is_space s"
  let ?b = "rev (dropWhile is_space (rev ?a))"
  have "?a = [] \<or> \<not> is_space (hd ?a)"
    using hd_dropWhile [of is_space s] by blast
  then have "?b = [] \<or> \<not> is_space (hd ?b)" by (rule hd_drop_trailing)
  then have "dropWhile is_space ?b = ?b" by (simp only: dropWhile_eq_self_iff)
  then show ?thesis by (simp add: trim_def)
qed

text \<open>The three white-space steps together.\<close>

lemma whitespace_steps_idem:
  "trim (collapse_spaces (replace_newlines (trim (collapse_spaces s)))) = trim (collapse_spaces s)"
proof -
  have sp: "spaced (trim (collapse_spaces s))"
    by (intro spaced_trim spaced_collapse_spaces)
  then have "replace_newlines (trim (collapse_spaces s)) = trim (collapse_spaces s)"
    by (intro replace_newlines_no_LF spaced_no_LF)
  moreover from sp have "collapse_spaces (trim (collapse_spaces s)) = trim (collapse_spaces s)"
    by (rule collapse_spaces_spaced)
  ultimately show ?thesis by (simp add: trim_idem)
qed

text \<open>The lengths of the steps: only the replacement of line feeds can make a text longer.\<close>

lemma length_remove_range: "length (remove_range lo hi s) \<le> length s"
  by (induction lo hi s rule: remove_range.induct) auto

lemma remove_range_same_length:
  "length (remove_range lo hi s) = length s \<Longrightarrow> remove_range lo hi s = s"
proof (induction lo hi s rule: remove_range.induct)
  case (1 lo hi)
  then show ?case by simp
next
  case (2 lo hi u)
  then show ?case by (simp split: if_splits)
next
  case (3 lo hi u v rest)
  from length_remove_range [of lo hi rest] length_remove_range [of lo hi "v # rest"] 3
  show ?case by (auto split: if_splits)
qed

lemma length_remove_all: "length (remove_all rs s) \<le> length s"
proof (induction rs arbitrary: s)
  case Nil
  then show ?case by (simp add: remove_all_Nil)
next
  case (Cons r rs)
  obtain l h where r: "r = (l, h)" by (cases r)
  from Cons [of "remove_range l h s"] length_remove_range [of l h s] show ?case
    unfolding r remove_all_Cons by simp
qed

lemma remove_all_same_length:
  "length (remove_all rs s) = length s \<Longrightarrow> remove_all rs s = s"
proof (induction rs arbitrary: s)
  case Nil
  then show ?case by (simp add: remove_all_Nil)
next
  case (Cons r rs)
  obtain l h where r: "r = (l, h)" by (cases r)
  from Cons.prems length_remove_all [of rs "remove_range l h s"] length_remove_range [of l h s]
  have "length (remove_range l h s) = length s"
    unfolding r remove_all_Cons by simp
  then have same: "remove_range l h s = s" by (rule remove_range_same_length)
  with Cons.prems have "length (remove_all rs s) = length s"
    unfolding r remove_all_Cons by simp
  then have "remove_all rs s = s" by (rule Cons.IH)
  with same show ?case unfolding r remove_all_Cons by simp
qed

lemma length_collapse_spaces: "length (collapse_spaces s) \<le> length s"
proof (induction s rule: collapse_spaces.induct)
  case 1
  then show ?case by simp
next
  case (2 c cs)
  from 2 length_dropWhile_le [of is_space cs] show ?case by (auto split: if_splits)
qed

lemma length_trim: "length (trim s) \<le> length s"
proof -
  have "length (trim s) \<le> length (dropWhile is_space s)"
    unfolding trim_def using length_dropWhile_le [of is_space "rev (dropWhile is_space s)"]
    by simp
  with length_dropWhile_le [of is_space s] show ?thesis by simp
qed

lemma length_whitespace_steps:
  "LF \<notin> set s \<Longrightarrow> length (trim (collapse_spaces (replace_newlines s))) \<le> length s"
  using length_trim [of "collapse_spaces s"] length_collapse_spaces [of s]
  by (simp add: replace_newlines_no_LF)

text \<open>The markdown steps only leave out code units that are not surrogates.\<close>

inductive_cases thin_NilE: "thin [] t"

inductive_cases thin_ConsE: "thin (c # s) t"

lemma thin_refl: "thin s s"
  by (induction s) (auto intro: thin.intros)

lemma thin_length: "thin s t \<Longrightarrow> length t \<le> length s"
  by (induction rule: thin.induct) auto

lemma thin_same_length: "thin s t \<Longrightarrow> length t = length s \<Longrightarrow> t = s"
  by (induction rule: thin.induct) (auto dest: thin_length)

lemma thin_set: "thin s t \<Longrightarrow> set t \<subseteq> set s"
  by (induction rule: thin.induct) auto

lemma thin_trans: "thin s t \<Longrightarrow> thin t u \<Longrightarrow> thin s u"
proof (induction arbitrary: u rule: thin.induct)
  case thin_Nil
  then show ?case by simp
next
  case (thin_keep s t c)
  from thin_keep.prems show ?case
  proof (rule thin_ConsE)
    fix u' assume "u = c # u'" "thin t u'"
    with thin_keep.IH show ?thesis by (auto intro: thin.thin_keep)
  next
    assume "\<not> is_high c" "\<not> is_low c" "thin t u"
    with thin_keep.IH show ?thesis by (auto intro: thin.thin_drop)
  qed
next
  case (thin_drop c s t)
  then show ?case by (auto intro: thin.thin_drop)
qed

lemma thin_append: "thin s t \<Longrightarrow> thin s' t' \<Longrightarrow> thin (s @ s') (t @ t')"
  by (induction rule: thin.induct) (auto intro: thin.intros)

lemma thin_drop_list:
  "\<forall>c \<in> set d. \<not> is_high c \<and> \<not> is_low c \<Longrightarrow> thin s t \<Longrightarrow> thin (d @ s) t"
  by (induction d) (auto intro: thin.intros)

lemma thin_free_of: "free_of lo hi s \<Longrightarrow> thin s t \<Longrightarrow> free_of lo hi t"
proof (induction lo hi s arbitrary: t rule: free_of.induct)
  case (1 lo hi)
  then show ?case by (auto elim: thin_NilE)
next
  case (2 lo hi u)
  from 2(2) show ?case
  proof (rule thin_ConsE)
    fix t' assume "t = u # t'" "thin [] t'"
    with 2(1) show ?thesis by (auto elim: thin_NilE)
  next
    assume "thin [] t"
    then show ?thesis by (auto elim: thin_NilE)
  qed
next
  case (3 lo hi u v rest)
  show ?case
  proof (cases "is_high u \<and> is_low v")
    case True
    with 3(4) obtain t2 where t: "t = u # v # t2" and r: "thin rest t2"
      by (auto elim!: thin_ConsE)
    from 3(3) True have "free_of lo hi rest" by simp
    with 3(1) True r have "free_of lo hi t2" by blast
    with 3(3) True show ?thesis unfolding t by simp
  next
    case False
    with 3(3) have u: "\<not> is_high u" "\<not> is_low u" "\<not> (lo \<le> u \<and> u \<le> hi)"
      and f: "free_of lo hi (v # rest)" by auto
    from 3(4) show ?thesis
    proof (rule thin_ConsE)
      fix t' assume t: "t = u # t'" and "thin (v # rest) t'"
      with 3(2) False f have "free_of lo hi t'" by blast
      with u show ?thesis unfolding t by (simp add: free_of_Cons)
    next
      assume "thin (v # rest) t"
      with 3(2) False f show ?thesis by blast
    qed
  qed
qed

lemma find_close_Some: "find_close d s = Some (g, r) \<Longrightarrow> s = g @ d @ r"
proof (induction s arbitrary: g)
  case Nil
  then show ?case by (simp split: if_splits)
next
  case (Cons c cs)
  show ?case
  proof (cases "take (length d) (c # cs) = d")
    case True
    with Cons.prems have "g = []" "r = drop (length d) (c # cs)" by simp_all
    with True append_take_drop_id [of "length d" "c # cs"] show ?thesis by simp
  next
    case False
    with Cons.prems obtain g' where "find_close d cs = Some (g', r)" "g = c # g'"
      by (auto split: if_splits option.splits)
    with Cons.IH show ?thesis by simp
  qed
qed

lemma strip_delim_thin:
  "\<forall>c \<in> set d. \<not> is_high c \<and> \<not> is_low c \<Longrightarrow> thin s (strip_delim d s)"
proof (induction d s rule: strip_delim.induct)
  case (1 d)
  then show ?case by (simp add: thin_Nil)
next
  case (2 d c cs)
  show ?case
  proof (cases "d \<noteq> [] \<and> take (length d) (c # cs) = d")
    case True
    show ?thesis
    proof (cases "find_close d (drop (length d) (c # cs))")
      case None
      from "2.IH"(1) [OF True None "2.prems"] have "thin (c # cs) (c # strip_delim d cs)"
        by (rule thin_keep)
      moreover from True None have "strip_delim d (c # cs) = c # strip_delim d cs" by simp
      ultimately show ?thesis by simp
    next
      case (Some p)
      obtain g r where p: "p = (g, r)" by (cases p)
      from Some p find_close_Some [of d "drop (length d) (c # cs)" g r]
      have "drop (length d) (c # cs) = g @ d @ r" by simp
      with True append_take_drop_id [of "length d" "c # cs"]
      have whole: "c # cs = d @ g @ d @ r" by simp
      from "2.IH"(2) [OF True Some p [symmetric] "2.prems"]
      have "thin r (strip_delim d r)" .
      with "2.prems" have "thin (d @ r) (strip_delim d r)" by (rule thin_drop_list)
      with thin_refl [of g] have "thin (g @ d @ r) (g @ strip_delim d r)" by (rule thin_append)
      with "2.prems" have "thin (d @ g @ d @ r) (g @ strip_delim d r)" by (rule thin_drop_list)
      moreover from True Some p have "strip_delim d (c # cs) = g @ strip_delim d r" by simp
      ultimately show ?thesis unfolding whole [symmetric] by simp
    qed
  next
    case False
    from "2.IH"(3) [OF False "2.prems"] have "thin (c # cs) (c # strip_delim d cs)"
      by (rule thin_keep)
    moreover from False have "strip_delim d (c # cs) = c # strip_delim d cs" by auto
    ultimately show ?thesis by simp
  qed
qed

lemma plain_marker:
  "\<not> is_high STAR" "\<not> is_low STAR" "\<not> is_high BACKTICK" "\<not> is_low BACKTICK"
  "\<not> is_high HASH" "\<not> is_low HASH"
  by (simp_all add: is_high_def is_low_def)

lemma strip_heading_thin: "thin s (strip_heading s)"
proof (induction s rule: strip_heading.induct)
  case 1
  then show ?case by (simp add: thin_Nil)
next
  case (2 c cs)
  let ?run = "takeWhile (\<lambda>x. x = HASH) cs"
  let ?after = "dropWhile (\<lambda>x. x = HASH) cs"
  show ?case
  proof (cases "c = HASH \<and> length ?run < 6 \<and> (case ?after of [] \<Rightarrow> False | w # _ \<Rightarrow> is_space w)")
    case True
    then obtain w rest where after: "?after = w # rest" and w: "is_space w"
      by (cases ?after) auto
    have "cs = ?run @ ?after" by simp
    with True after have whole: "c # cs = (HASH # ?run @ [w]) @ rest" by simp
    have "\<forall>x \<in> set (HASH # ?run @ [w]). \<not> is_high x \<and> \<not> is_low x"
      using space_not_surrogate [OF w] plain_marker by (auto dest: set_takeWhileD)
    moreover from 2(1) [OF True] after have "thin rest (strip_heading rest)" by simp
    ultimately have "thin ((HASH # ?run @ [w]) @ rest) (strip_heading rest)"
      by (rule thin_drop_list)
    moreover have "strip_heading (c # cs) = strip_heading (tl ?after)"
      using True by simp
    ultimately show ?thesis unfolding whole [symmetric] after by simp
  next
    case False
    have "strip_heading (c # cs) = c # strip_heading cs"
      using False by (simp only: strip_heading.simps if_False)
    with 2(2) [OF False] show ?thesis by (simp add: thin_keep)
  qed
qed

lemma strip_marks_thin:
  "thin s (strip_heading (strip_delim [BACKTICK] (strip_delim [STAR] (strip_delim [STAR, STAR] s))))"
proof -
  have "thin s (strip_delim [STAR, STAR] s)"
    by (rule strip_delim_thin) (simp add: plain_marker)
  moreover have "thin (strip_delim [STAR, STAR] s) (strip_delim [STAR] (strip_delim [STAR, STAR] s))"
    by (rule strip_delim_thin) (simp add: plain_marker)
  moreover have "thin (strip_delim [STAR] (strip_delim [STAR, STAR] s))
      (strip_delim [BACKTICK] (strip_delim [STAR] (strip_delim [STAR, STAR] s)))"
    by (rule strip_delim_thin) (simp add: plain_marker)
  ultimately show ?thesis
    using strip_heading_thin thin_trans by blast
qed

text \<open>Where the markdown steps find nothing.\<close>

lemma strip_delim_single_settled: "count_list s c < 2 \<Longrightarrow> strip_delim [c] s = s"
proof (induction s)
  case Nil
  then show ?case by simp
next
  case (Cons x xs)
  show ?case
  proof (cases "x = c")
    case True
    with Cons.prems have absent: "c \<notin> set xs" by (simp add: count_list_0_iff)
    have "find_close [c] xs = None"
    proof (cases "find_close [c] xs")
      case None
      then show ?thesis .
    next
      case (Some p)
      obtain g r where "p = (g, r)" by (cases p)
      with Some find_close_Some [of "[c]" xs g r] have "xs = g @ [c] @ r" by simp
      with absent show ?thesis by simp
    qed
    moreover from absent have "strip_delim [c] xs = xs" by (simp add: strip_delim_absent)
    ultimately show ?thesis using True by simp
  next
    case False
    with Cons show ?thesis by simp
  qed
qed

lemma strip_delim_double_settled: "count_list s c < 2 \<Longrightarrow> strip_delim [c, c] s = s"
proof (induction s)
  case Nil
  then show ?case by simp
next
  case (Cons x xs)
  from Cons.prems have "take (length [c, c]) (x # xs) \<noteq> [c, c]"
    by (cases xs) (auto split: if_splits)
  moreover from Cons.prems have "count_list xs c < 2" by (simp split: if_splits)
  ultimately show ?case using Cons.IH by auto
qed

lemma no_heading_tl: "no_heading (c # s) \<Longrightarrow> no_heading s"
  by (cases s) auto

lemma no_heading_run:
  "no_heading (HASH # cs) \<Longrightarrow>
     \<not> (case dropWhile (\<lambda>x. x = HASH) cs of [] \<Rightarrow> False | w # _ \<Rightarrow> is_space w)"
  by (induction cs) (auto split: if_splits)

lemma strip_heading_settled: "no_heading s \<Longrightarrow> strip_heading s = s"
proof (induction s rule: strip_heading.induct)
  case 1
  then show ?case by simp
next
  case (2 c cs)
  show ?case
  proof (cases "c = HASH")
    case True
    with 2(3) no_heading_run [of cs]
    have no: "\<not> (c = HASH \<and> length (takeWhile (\<lambda>x. x = HASH) cs) < 6 \<and>
        (case dropWhile (\<lambda>x. x = HASH) cs of [] \<Rightarrow> False | w # _ \<Rightarrow> is_space w))"
      by simp
    have "strip_heading (c # cs) = c # strip_heading cs"
      using no by (simp only: strip_heading.simps if_False)
    with 2(2) [OF no] no_heading_tl [OF 2(3)] show ?thesis by simp
  next
    case False
    then have no: "\<not> (c = HASH \<and> length (takeWhile (\<lambda>x. x = HASH) cs) < 6 \<and>
        (case dropWhile (\<lambda>x. x = HASH) cs of [] \<Rightarrow> False | w # _ \<Rightarrow> is_space w))"
      by simp
    have "strip_heading (c # cs) = c # strip_heading cs"
      using no by (simp only: strip_heading.simps if_False)
    with 2(2) [OF no] no_heading_tl [OF 2(3)] show ?thesis by simp
  qed
qed

text \<open>Where the markdown steps change nothing, they find nothing.\<close>

lemma find_close_None:
  "find_close [c] s = None \<Longrightarrow> \<forall>x \<in> set s. \<not> is_line_terminator x \<Longrightarrow> c \<notin> set s"
  by (induction s) (auto split: if_splits option.splits)

lemma strip_delim_single_fixed:
  assumes "\<not> is_high c" "\<not> is_low c"
  shows "strip_delim [c] s = s \<Longrightarrow> \<forall>x \<in> set s. \<not> is_line_terminator x \<Longrightarrow>
           count_list s c < 2"
proof (induction s)
  case Nil
  then show ?case by simp
next
  case (Cons x xs)
  show ?case
  proof (cases "x = c")
    case True
    show ?thesis
    proof (cases "find_close [c] xs")
      case None
      with Cons.prems(2) have "c \<notin> set xs" by (simp add: find_close_None)
      with True show ?thesis by (simp add: count_list_0_iff)
    next
      case (Some p)
      obtain g r where p: "p = (g, r)" by (cases p)
      with Some find_close_Some [of "[c]" xs g r] have xs: "xs = g @ [c] @ r" by simp
      have "thin r (strip_delim [c] r)"
        by (rule strip_delim_thin) (simp add: assms)
      then have "length (strip_delim [c] r) \<le> length r" by (rule thin_length)
      moreover from True Some p have "strip_delim [c] (x # xs) = g @ strip_delim [c] r" by simp
      with Cons.prems(1) have "length (g @ strip_delim [c] r) = length (x # xs)" by simp
      ultimately show ?thesis using xs by simp
    qed
  next
    case False
    with Cons show ?thesis by simp
  qed
qed

lemma strip_heading_fixed: "strip_heading s = s \<Longrightarrow> no_heading s"
proof (induction s rule: strip_heading.induct)
  case 1
  then show ?case by simp
next
  case (2 c cs)
  let ?cond = "c = HASH \<and> length (takeWhile (\<lambda>x. x = HASH) cs) < 6 \<and>
    (case dropWhile (\<lambda>x. x = HASH) cs of [] \<Rightarrow> False | w # _ \<Rightarrow> is_space w)"
  show ?case
  proof (cases ?cond)
    case True
    have "length (strip_heading (tl (dropWhile (\<lambda>x. x = HASH) cs))) \<le>
            length (tl (dropWhile (\<lambda>x. x = HASH) cs))"
      using strip_heading_thin by (rule thin_length)
    also have "\<dots> \<le> length cs"
      using length_dropWhile_le [of "\<lambda>x. x = HASH" cs] by simp
    finally have "length (strip_heading (tl (dropWhile (\<lambda>x. x = HASH) cs))) \<le> length cs" .
    moreover have "strip_heading (c # cs) = strip_heading (tl (dropWhile (\<lambda>x. x = HASH) cs))"
      using True by simp
    ultimately have "length (strip_heading (c # cs)) \<le> length cs" by simp
    with 2(3) show ?thesis by simp
  next
    case False
    have "strip_heading (c # cs) = c # strip_heading cs"
      using False by (simp only: strip_heading.simps if_False)
    with 2(3) have "strip_heading cs = cs" by simp
    with 2(2) [OF False] have rest: "no_heading cs" by simp
    show ?thesis
    proof (cases cs)
      case Nil
      then show ?thesis by simp
    next
      case (Cons d rest')
      have "\<not> (c = HASH \<and> is_space d)"
      proof
        assume a: "c = HASH \<and> is_space d"
        then have "d \<noteq> HASH" by (auto simp: is_space_def)
        with a Cons have ?cond by simp
        with False show False by simp
      qed
      with rest Cons show ?thesis by simp
    qed
  qed
qed

lemma strip_marks_fixed_iff:
  assumes "\<forall>x \<in> set s. \<not> is_line_terminator x"
  shows "strip_heading (strip_delim [BACKTICK] (strip_delim [STAR] (strip_delim [STAR, STAR] s))) = s
           \<longleftrightarrow> settled s"
proof
  assume "settled s"
  then show "strip_heading (strip_delim [BACKTICK] (strip_delim [STAR] (strip_delim [STAR, STAR] s))) = s"
    by (simp add: settled_def strip_delim_double_settled strip_delim_single_settled
        strip_heading_settled)
next
  let ?s1 = "strip_delim [STAR, STAR] s"
  let ?s2 = "strip_delim [STAR] ?s1"
  let ?s3 = "strip_delim [BACKTICK] ?s2"
  assume fixed: "strip_heading ?s3 = s"
  have t1: "thin s ?s1" by (rule strip_delim_thin) (simp add: plain_marker)
  have t2: "thin ?s1 ?s2" by (rule strip_delim_thin) (simp add: plain_marker)
  have t3: "thin ?s2 ?s3" by (rule strip_delim_thin) (simp add: plain_marker)
  have t4: "thin ?s3 (strip_heading ?s3)" by (rule strip_heading_thin)
  from thin_length [OF t1] thin_length [OF t2] thin_length [OF t3] thin_length [OF t4] fixed
  have l1: "length ?s1 = length s" and l2: "length ?s2 = length ?s1"
    and l3: "length ?s3 = length ?s2" by simp_all
  from t1 l1 have s1: "?s1 = s" by (rule thin_same_length)
  from t2 l2 have "?s2 = ?s1" by (rule thin_same_length)
  with s1 have s2: "strip_delim [STAR] s = s" by simp
  from t3 l3 have "?s3 = ?s2" by (rule thin_same_length)
  with s1 s2 have s3: "strip_delim [BACKTICK] s = s" by simp
  from fixed s1 s2 s3 have s4: "strip_heading s = s" by simp
  from s2 assms have "count_list s STAR < 2"
    by (intro strip_delim_single_fixed) (simp_all add: plain_marker)
  moreover from s3 assms have "count_list s BACKTICK < 2"
    by (intro strip_delim_single_fixed) (simp_all add: plain_marker)
  moreover from s4 have "no_heading s" by (rule strip_heading_fixed)
  ultimately show "settled s" by (simp add: settled_def)
qed

lemma spaced_no_terminator: "spaced s \<Longrightarrow> \<forall>x \<in> set s. \<not> is_line_terminator x"
  by (induction s rule: spaced.induct) (auto simp: is_space_def is_line_terminator_def)

text \<open>
  A second pass over a result of \<open>sanitizeText\<close>, for any list of ranges: the result comes
  back exactly when the emoji steps and the markdown steps find nothing in it.
\<close>

lemma sanitize_again:
  fixes rs :: "(nat \<times> nat) list" and x :: jsstring
  defines "out \<equiv> strip_markdown x"
  shows "strip_markdown (remove_all rs out) = out \<longleftrightarrow> remove_all rs out = out \<and> settled out"
proof
  have sp: "spaced out" unfolding out_def strip_markdown_def
    by (intro spaced_trim spaced_collapse_spaces)
  have tr: "trim out = out" unfolding out_def strip_markdown_def by (rule trim_idem)
  from sp have nt: "\<forall>x \<in> set out. \<not> is_line_terminator x" by (rule spaced_no_terminator)
  from sp have nl: "LF \<notin> set out" by (rule spaced_no_LF)
  {
    assume "remove_all rs out = out \<and> settled out"
    then have e: "remove_all rs out = out" and st: "settled out" by simp_all
    from st nt have "strip_heading (strip_delim [BACKTICK] (strip_delim [STAR]
        (strip_delim [STAR, STAR] out))) = out"
      by (simp add: strip_marks_fixed_iff)
    then have "strip_markdown out = trim (collapse_spaces (replace_newlines out))"
      by (simp add: strip_markdown_def)
    also have "\<dots> = out"
      using nl sp tr by (simp add: replace_newlines_no_LF collapse_spaces_spaced)
    finally show "strip_markdown (remove_all rs out) = out" using e by simp
  }
  {
    let ?e = "remove_all rs out"
    let ?m = "strip_heading (strip_delim [BACKTICK] (strip_delim [STAR] (strip_delim [STAR, STAR] ?e)))"
    assume again: "strip_markdown ?e = out"
    have le: "length ?e \<le> length out" by (rule length_remove_all)
    have tm: "thin ?e ?m" by (rule strip_marks_thin)
    then have lm: "length ?m \<le> length ?e" by (rule thin_length)
    from thin_set [OF tm] set_remove_all [of rs out] nl have "LF \<notin> set ?m" by blast
    then have "length (trim (collapse_spaces (replace_newlines ?m))) \<le> length ?m"
      by (rule length_whitespace_steps)
    with again have "length out \<le> length ?m" by (simp add: strip_markdown_def)
    with le lm have "length ?e = length out" and lme: "length ?m = length ?e" by simp_all
    then have e: "?e = out" by (intro remove_all_same_length)
    from tm lme have "?m = ?e" by (rule thin_same_length)
    with e nt have "settled out" by (simp add: strip_marks_fixed_iff)
    with e show "remove_all rs out = out \<and> settled out" by simp
  }
qed

lemma sanitize_again_well_formed:
  assumes wf: "well_formed T" and ranges: "\<And>lo hi. (lo, hi) \<in> set rs \<Longrightarrow> DOT < lo"
  shows "remove_all rs (strip_markdown (remove_all rs T)) = strip_markdown (remove_all rs T)"
proof -
  let ?t = "remove_all rs T"
  let ?m = "strip_heading (strip_delim [BACKTICK] (strip_delim [STAR] (strip_delim [STAR, STAR] ?t)))"
  have "free_of lo hi (strip_markdown ?t)" if "(lo, hi) \<in> set rs" for lo hi
  proof -
    from free_of_remove_all [OF wf that] strip_marks_thin [of ?t]
    have "free_of lo hi ?m" by (rule thin_free_of)
    with ranges [OF that] show ?thesis
      unfolding strip_markdown_def
      by (intro free_of_trim free_of_collapse_spaces free_of_replace_newlines)
  qed
  then show ?thesis by (rule remove_all_free)
qed

text \<open>
  In particular, a well-formed text without \<open>*\<close>, backtick and \<open>#\<close> has a result that a
  second pass returns.
\<close>

lemma settled_unmarked:
  assumes "STAR \<notin> set s" "BACKTICK \<notin> set s" "HASH \<notin> set s"
  shows "settled s"
proof -
  from assms(3) have "no_heading s"
    by (induction s rule: no_heading.induct) auto
  with assms(1,2) show ?thesis by (simp add: settled_def count_list_0_iff)
qed

lemma set_strip_markdown: "set (strip_markdown s) \<subseteq> insert DOT (insert SPACE (set s))"
proof -
  let ?m = "strip_heading (strip_delim [BACKTICK] (strip_delim [STAR] (strip_delim [STAR, STAR] s)))"
  have "set ?m \<subseteq> set s" using strip_marks_thin by (rule thin_set)
  with set_trim [of "collapse_spaces (replace_newlines ?m)"]
    set_collapse_spaces [of "replace_newlines ?m"] set_replace_newlines [of ?m]
  show ?thesis unfolding strip_markdown_def by blast
qed

lemma sanitize_unmarked:
  assumes wf: "well_formed T"
    and marks: "STAR \<notin> set T" "BACKTICK \<notin> set T" "HASH \<notin> set T"
    and ranges: "\<And>lo hi. (lo, hi) \<in> set rs \<Longrightarrow> DOT < lo"
  shows "strip_markdown (remove_all rs (strip_markdown (remove_all rs T))) =
           strip_markdown (remove_all rs T)"
proof -
  let ?out = "strip_markdown (remove_all rs T)"
  from set_strip_markdown [of "remove_all rs T"] set_remove_all [of rs T] marks
  have "STAR \<notin> set ?out" "BACKTICK \<notin> set ?out" "HASH \<notin> set ?out" by auto
  then have "settled ?out" by (rule settled_unmarked)
  moreover from wf ranges have "remove_all rs ?out = ?out" by (rule sanitize_again_well_formed)
  ultimately show ?thesis
    using sanitize_again [of rs "remove_all rs T"] by blast
qed

text \<open>
  C9, as amended. \<open>sanitizeText\<close> is a total function that maps the empty string to the
  empty string. A second pass returns the result of the first exactly when that result
  holds no code point of the emoji ranges, fewer than two \<open>*\<close>, fewer than two backticks
  and no \<open>#\<close> directly before white space; the result of a well-formed text never holds
  a code point of the emoji ranges. The same holds for the copy in the browser hook.
\<close>

theorem sanitizeText_idempotent_iff:
  "(sanitizeText (sanitizeText T) = sanitizeText T \<longleftrightarrow>
      remove_all server_ranges (sanitizeText T) = sanitizeText T \<and> settled (sanitizeText T)) \<and>
   (sanitizeText_client (sanitizeText_client T) = sanitizeText_client T \<longleftrightarrow>
      remove_all client_ranges (sanitizeText_client T) = sanitizeText_client T \<and>
      settled (sanitizeText_client T)) \<and>
   (well_formed T \<longrightarrow>
      remove_all server_ranges (sanitizeText T) = sanitizeText T \<and>
      remove_all client_ranges (sanitizeText_client T) = sanitizeText_client T) \<and>
   sanitizeText [] = [] \<and> sanitizeText_client [] = []"
proof -
  have server: "sanitizeText (sanitizeText T) = sanitizeText T \<longleftrightarrow>
      remove_all server_ranges (sanitizeText T) = sanitizeText T \<and> settled (sanitizeText T)"
    unfolding sanitizeText_ranges by (rule sanitize_again)
  have client: "sanitizeText_client (sanitizeText_client T) = sanitizeText_client T \<longleftrightarrow>
      remove_all client_ranges (sanitizeText_client T) = sanitizeText_client T \<and>
      settled (sanitizeText_client T)"
    unfolding sanitizeText_client_ranges by (rule sanitize_again)
  have wf: "well_formed T \<longrightarrow>
      remove_all server_ranges (sanitizeText T) = sanitizeText T \<and>
      remove_all client_ranges (sanitizeText_client T) = sanitizeText_client T"
  proof
    assume wf: "well_formed T"
    have "DOT < lo" if "(lo, hi) \<in> set server_ranges" for lo hi
      using that by (auto simp: server_ranges_def)
    from sanitize_again_well_formed [OF wf this]
    have s: "remove_all server_ranges (sanitizeText T) = sanitizeText T"
      by (simp only: sanitizeText_ranges)
    have "DOT < lo" if "(lo, hi) \<in> set client_ranges" for lo hi
      using that by (auto simp: client_ranges_def)
    from sanitize_again_well_formed [OF wf this]
    have c: "remove_all client_ranges (sanitizeText_client T) = sanitizeText_client T"
      by (simp only: sanitizeText_client_ranges)
    from s c show "remove_all server_ranges (sanitizeText T) = sanitizeText T \<and>
      remove_all client_ranges (sanitizeText_client T) = sanitizeText_client T" by (rule conjI)
  qed
  have empty: "sanitizeText [] = []" "sanitizeText_client [] = []"
    by (simp_all add: sanitizeText_def sanitizeText_client_def strip_markdown_def trim_def)
  from server client wf empty show ?thesis by blast
qed

text \<open>
  A heading, an emoji, a line feed, bold text and code: the first pass gives
  \<open>Hi . b c\<close>, and the second pass returns it.
\<close>

theorem sanitizeText_idempotent_iff_witness:
  "well_formed (js ''# Hi '' @ [0xD83D, 0xDE00, LF] @ js ''**b** `c`'') \<and>
   sanitizeText (js ''# Hi '' @ [0xD83D, 0xDE00, LF] @ js ''**b** `c`'') = js ''Hi . b c'' \<and>
   settled (js ''Hi . b c'') \<and>
   sanitizeText (sanitizeText (js ''# Hi '' @ [0xD83D, 0xDE00, LF] @ js ''**b** `c`'')) =
     sanitizeText (js ''# Hi '' @ [0xD83D, 0xDE00, LF] @ js ''**b** `c`'') \<and>
   sanitizeText_client (sanitizeText_client (js ''# Hi '' @ [0xD83D, 0xDE00, LF] @ js ''**b** `c`'')) =
     sanitizeText_client (js ''# Hi '' @ [0xD83D, 0xDE00, LF] @ js ''**b** `c`'')"
proof -
  let ?T = "js ''# Hi '' @ [0xD83D, 0xDE00, LF] @ js ''**b** `c`''"
  have wf: "well_formed ?T" by (simp add: js_def is_high_def is_low_def)
  have val: "sanitizeText ?T = js ''Hi . b c''"
    by (simp add: eval_text code_point_def)
  have valc: "sanitizeText_client ?T = js ''Hi . b c''"
    by (simp add: eval_text sanitizeText_client_def code_point_def)
  have st: "settled (js ''Hi . b c'')"
    by (simp add: settled_def js_def is_space_def)
  from sanitizeText_idempotent_iff [of ?T] wf val valc st show ?thesis by simp
qed

text \<open>
  C9 as stated fails. Two markers on different lines are not a pair for the first pass,
  which joins the lines, and are one for the second.
\<close>

theorem sanitizeText_not_idempotent:
  "sanitizeText [STAR, LF, STAR] = js ''*. *'' \<and>
   sanitizeText (sanitizeText [STAR, LF, STAR]) = js ''.'' \<and>
   sanitizeText_client [STAR, LF, STAR] = js ''*. *'' \<and>
   sanitizeText_client (sanitizeText_client [STAR, LF, STAR]) = js ''.''"
proof -
  have a: "sanitizeText [STAR, LF, STAR] = js ''*. *''"
    and b: "sanitizeText (js ''*. *'') = js ''.''"
    and c: "sanitizeText_client [STAR, LF, STAR] = js ''*. *''"
    and d: "sanitizeText_client (js ''*. *'') = js ''.''"
    by (simp_all add: eval_text sanitizeText_client_def)
  show ?thesis unfolding a c b d by simp
qed

text \<open>A run of more than six \<open>#\<close> leaves a heading for the second pass.\<close>

lemma sanitizeText_not_idempotent_heading:
  "sanitizeText (js ''########  x'') = js ''## x'' \<and> sanitizeText (js ''## x'') = js ''x''"
  by (simp add: eval_text)

text \<open>
  In a text that is not well-formed, removing an emoji can bring two lone surrogates
  together, which the second pass reads as an emoji.
\<close>

lemma sanitizeText_not_idempotent_surrogates:
  "\<not> well_formed [0xD83D, 0xD83D, 0xDE00, 0xDE00] \<and>
   sanitizeText [0xD83D, 0xD83D, 0xDE00, 0xDE00] = [0xD83D, 0xDE00] \<and>
   sanitizeText [0xD83D, 0xDE00] = []"
  by (simp add: eval_text code_point_def)

end
